theory Spec2Isabelle
  imports Main "HOL-Library.AList" "HOL-Library.Multiset" "HOL-Library.Stream"
begin

section \<open>Sharded CSV dataset and batched iterator (translation/sharded\_dataset.py)\<close>

subsection \<open>Python values and exceptions\<close>

text \<open>
  Every exception the code can raise is a value. A call returns its result (or the
  exception) together with the object and the world as the call left them, because the
  fields assigned before a \<^verbatim>\<open>raise\<close> keep their new values.
\<close>

datatype py_error =
    StopIteration
  | IndexError
  | KeyError
  | NameError
  | FileNotFoundError
  | TypeError
  | RuntimeError
  | OverflowError

type_synonym Entry_Type = "string \<times> string"

text \<open>List subscription \<^verbatim>\<open>xs[i]\<close>: a negative index counts from the end.\<close>

definition py_getitem :: "'a list \<Rightarrow> int \<Rightarrow> py_error + 'a" where
  "py_getitem xs i =
     (if i < 0
      then (if - i \<le> int (length xs) then Inr (xs ! nat (int (length xs) + i)) else Inl IndexError)
      else (if i < int (length xs) then Inr (xs ! nat i) else Inl IndexError))"

text \<open>
  \<^verbatim>\<open>os.path.join(d, f)\<close> with two components (POSIX): an absolute second component
  replaces the first; otherwise a separator is inserted unless the first is empty or
  already ends with one.
\<close>

definition os_path_join :: "string \<Rightarrow> string \<Rightarrow> string" where
  "os_path_join d f =
     (if f \<noteq> [] \<and> hd f = CHR ''/'' then f
      else if d = [] \<or> last d = CHR ''/'' then d @ f
      else d @ ''/'' @ f)"

subsection \<open>The world outside the object\<close>

text \<open>
  Two readers of a shard file are outside the repository's sources: the line counter
  \<^verbatim>\<open>utils.get_num_lines\<close> and the standard library's \<^verbatim>\<open>csv.reader\<close>. A shard
  file is therefore given by what each of them returns for it: the physical line count
  and the list of parsed rows (each row a list of fields). The two are independent
  data: a quoted field may span several physical lines, and a blank line parses to an
  empty row.
\<close>

record shard_file =
  num_lines :: nat
  csv_rows :: "string list list"

text \<open>
  The world holds the directory listings (\<^verbatim>\<open>os.listdir\<close>), the files, the handles
  that have been opened and not closed, the state of the module \<^verbatim>\<open>random\<close>
  as the sequence of its future draws, and what the installed torch makes of a Python
  integer beyond \<open>2^53\<close> in magnitude when it stores it in a float tensor that is then
  converted to integers (an exception in some versions, a conversion through a double
  in others).
\<close>

record world =
  dirs :: "string \<Rightarrow> string list option"
  files :: "string \<Rightarrow> shard_file option"
  open_handles :: "string list"
  rng :: "nat stream"
  torch_big_int :: "int \<Rightarrow> py_error + int"

text \<open>A Python file object: the path it was opened on and whether it has been closed.\<close>

record file_obj =
  fo_path :: string
  fo_closed :: bool

definition get_num_lines :: "world \<Rightarrow> string \<Rightarrow> py_error + nat" where
  "get_num_lines w file_name =
     (case files w file_name of
        None \<Rightarrow> Inl FileNotFoundError
      | Some sf \<Rightarrow> Inr (num_lines sf))"

text \<open>
  \<^verbatim>\<open>random.shuffle(x)\<close>:
  \<^verbatim>\<open>for i in reversed(range(1, len(x))): j = randbelow(i + 1); x[i], x[j] = x[j], x[i]\<close>.
  A draw \<^verbatim>\<open>randbelow(n)\<close> takes the next number of the sequence modulo \<open>n\<close>.
\<close>

fun shuffle_from :: "nat \<Rightarrow> 'a list \<Rightarrow> nat stream \<Rightarrow> 'a list \<times> nat stream" where
  "shuffle_from 0 xs r = (xs, r)"
| "shuffle_from (Suc i) xs r =
     (let j = shd r mod (Suc i + 1)
      in shuffle_from i (xs[Suc i := xs ! j, j := xs ! Suc i]) (stl r))"

definition random_shuffle :: "'a list \<Rightarrow> nat stream \<Rightarrow> 'a list \<times> nat stream" where
  "random_shuffle xs r = shuffle_from (length xs - 1) xs r"

subsection \<open>ShardedCSVDataset\<close>

record ShardedCSVDataset =
  sharded_dir :: string
  shuffle :: bool
  sharded_files :: "string list"
  file_counts :: "(string \<times> nat) list"
  curr_file :: "file_obj option"
  curr_file_name :: "string option"
  curr_idx :: int
  curr_data :: "Entry_Type list"
  shard_idx :: int

text \<open>
  The dict comprehension \<^verbatim>\<open>{file_name : get_num_lines(file_name) for ...}\<close>: keys in
  insertion order, a repeated key overwrites its value in place.
\<close>

fun count_files :: "world \<Rightarrow> string list \<Rightarrow> (string \<times> nat) list \<Rightarrow> py_error + (string \<times> nat) list" where
  "count_files w [] acc = Inr acc"
| "count_files w (file_name # rest) acc =
     (case get_num_lines w file_name of
        Inl e \<Rightarrow> Inl e
      | Inr n \<Rightarrow> count_files w rest (AList.update file_name n acc))"

definition ShardedCSVDataset_init ::
  "world \<Rightarrow> string \<Rightarrow> bool \<Rightarrow> py_error + (ShardedCSVDataset \<times> world)" where
  "ShardedCSVDataset_init w dir shuf =
     (case dirs w dir of
        None \<Rightarrow> Inl FileNotFoundError
      | Some names \<Rightarrow>
          let joined = map (os_path_join dir) names;
              (fs, r) = (if shuf then random_shuffle joined (rng w) else (joined, rng w));
              w' = w\<lparr>rng := r\<rparr>
          in (case count_files w' fs [] of
                Inl e \<Rightarrow> Inl e
              | Inr counts \<Rightarrow>
                  Inr (\<lparr>sharded_dir = dir, shuffle = shuf, sharded_files = fs,
                        file_counts = counts, curr_file = None, curr_file_name = None,
                        curr_idx = 0, curr_data = [], shard_idx = - 1\<rparr>, w')))"

definition len_dataset :: "ShardedCSVDataset \<Rightarrow> nat" where
  "len_dataset s = sum_list (map snd (file_counts s))"

definition reset :: "ShardedCSVDataset \<Rightarrow> ShardedCSVDataset" where
  "reset s = s\<lparr>curr_file := None, curr_file_name := None, curr_idx := 0,
               curr_data := [], shard_idx := - 1\<rparr>"

text \<open>
  Line 77: \<^verbatim>\<open>self.curr_file is None or self.curr_idx >= self.file_counts[self.curr_file_name]\<close>.
  The subscription raises \<^verbatim>\<open>KeyError\<close> for a name that is not a key (also for
  \<^verbatim>\<open>None\<close>).
\<close>

definition shard_exhausted :: "ShardedCSVDataset \<Rightarrow> py_error + bool" where
  "shard_exhausted s =
     (case curr_file s of
        None \<Rightarrow> Inr True
      | Some f \<Rightarrow>
          (case curr_file_name s of
             None \<Rightarrow> Inl KeyError
           | Some name \<Rightarrow>
               (case map_of (file_counts s) name of
                  None \<Rightarrow> Inl KeyError
                | Some c \<Rightarrow> Inr (curr_idx s \<ge> int c))))"

text \<open>Line 79: \<^verbatim>\<open>self.curr_file.close() if self.curr_file is not None else None\<close>.\<close>

definition close_curr_file :: "ShardedCSVDataset \<Rightarrow> world \<Rightarrow> ShardedCSVDataset \<times> world" where
  "close_curr_file s w =
     (case curr_file s of
        None \<Rightarrow> (s, w)
      | Some f \<Rightarrow>
          if fo_closed f then (s, w)
          else (s\<lparr>curr_file := Some (f\<lparr>fo_closed := True\<rparr>)\<rparr>,
                w\<lparr>open_handles := remove1 (fo_path f) (open_handles w)\<rparr>))"

text \<open>Line 94: \<^verbatim>\<open>[(row[0], row[1]) for row in reader]\<close>.\<close>

fun materialize :: "string list list \<Rightarrow> py_error + Entry_Type list" where
  "materialize [] = Inr []"
| "materialize (row # rows) =
     (case py_getitem row 0 of
        Inl e \<Rightarrow> Inl e
      | Inr a \<Rightarrow>
          (case py_getitem row 1 of
             Inl e \<Rightarrow> Inl e
           | Inr b \<Rightarrow>
               (case materialize rows of
                  Inl e \<Rightarrow> Inl e
                | Inr ps \<Rightarrow> Inr ((a, b) # ps))))"

text \<open>Lines 100 to 102: read the current row and advance the row index.\<close>

definition read_row ::
  "ShardedCSVDataset \<Rightarrow> world \<Rightarrow> (py_error + Entry_Type) \<times> ShardedCSVDataset \<times> world" where
  "read_row s w =
     (case py_getitem (curr_data s) (curr_idx s) of
        Inl e \<Rightarrow> (Inl e, s, w)
      | Inr val \<Rightarrow> (Inr val, s\<lparr>curr_idx := curr_idx s + 1\<rparr>, w))"

text \<open>Lines 81 to 97: advance to the next shard and read it into memory.\<close>

definition load_next_shard ::
  "ShardedCSVDataset \<Rightarrow> world \<Rightarrow> (py_error + unit) \<times> ShardedCSVDataset \<times> world" where
  "load_next_shard s w =
     (let s1 = s\<lparr>shard_idx := shard_idx s + 1\<rparr>
      in if shard_idx s1 \<ge> int (length (sharded_files s1)) then (Inl StopIteration, s1, w)
         else
           (case py_getitem (sharded_files s1) (shard_idx s1) of
              Inl e \<Rightarrow> (Inl e, s1, w)
            | Inr file_name \<Rightarrow>
                (case files w file_name of
                   None \<Rightarrow> (Inl FileNotFoundError, s1, w)
                 | Some sf \<Rightarrow>
                     let w1 = w\<lparr>open_handles := file_name # open_handles w\<rparr>;
                         s2 = s1\<lparr>curr_file := Some \<lparr>fo_path = file_name, fo_closed = False\<rparr>,
                                 curr_file_name := Some file_name, curr_idx := 0\<rparr>
                     in (case materialize (csv_rows sf) of
                           Inl e \<Rightarrow> (Inl e, s2, w1)
                         | Inr rows \<Rightarrow>
                             if shuffle s2
                             then (let (rows', r) = random_shuffle rows (rng w1)
                                   in (Inr (), s2\<lparr>curr_data := rows'\<rparr>, w1\<lparr>rng := r\<rparr>))
                             else (Inr (), s2\<lparr>curr_data := rows\<rparr>, w1)))))"

definition dataset_next ::
  "ShardedCSVDataset \<Rightarrow> world \<Rightarrow> (py_error + Entry_Type) \<times> ShardedCSVDataset \<times> world" where
  "dataset_next s w =
     (case shard_exhausted s of
        Inl e \<Rightarrow> (Inl e, s, w)
      | Inr False \<Rightarrow> read_row s w
      | Inr True \<Rightarrow>
          (let (s1, w1) = close_curr_file s w
           in (case load_next_shard s1 w1 of
                 (Inl e, s2, w2) \<Rightarrow> (Inl e, s2, w2)
               | (Inr u, s2, w2) \<Rightarrow> read_row s2 w2)))"

text \<open>\<open>n\<close> successive calls of \<^verbatim>\<open>next\<close>: the results in order, and the final state.\<close>

fun pull :: "nat \<Rightarrow> ShardedCSVDataset \<Rightarrow> world \<Rightarrow> (py_error + Entry_Type) list \<times> ShardedCSVDataset \<times> world" where
  "pull 0 s w = ([], s, w)"
| "pull (Suc n) s w =
     (case dataset_next s w of
        (r, s1, w1) \<Rightarrow> (case pull n s1 w1 of (rs, s2, w2) \<Rightarrow> (r # rs, s2, w2)))"

subsection \<open>Vocabulary\<close>

text \<open>
  Modelled from the spec: the class \<^verbatim>\<open>Vocabulary\<close> of \<^verbatim>\<open>vocab.py\<close> is not among the
  sources. The spec gives it a token-to-id mapping with unique keys and two reserved
  ids (pad, unknown); a lookup of a token that has no id of its own resolves to the
  unknown id and is not an error.
\<close>

record Vocabulary =
  token_ids :: "(string \<times> int) list"
  unk_id :: int
  pad_id :: int

definition word2idx :: "Vocabulary \<Rightarrow> string \<Rightarrow> int" where
  "word2idx v tok = (case map_of (token_ids v) tok of None \<Rightarrow> unk_id v | Some i \<Rightarrow> i)"

subsection \<open>ShardedBatchedIterator\<close>

record ShardedBatchedIterator =
  batch_size :: int
  data :: ShardedCSVDataset
  en_vocab :: Vocabulary
  fr_vocab :: Vocabulary
  max_sequence_length :: int

text \<open>Lines 105 to 117: the constructor stores its five arguments.\<close>

definition ShardedBatchedIterator_init ::
  "int \<Rightarrow> ShardedCSVDataset \<Rightarrow> Vocabulary \<Rightarrow> Vocabulary \<Rightarrow> int \<Rightarrow> py_error + ShardedBatchedIterator" where
  "ShardedBatchedIterator_init bs d en fr msl =
     Inr \<lparr>batch_size = bs, data = d, en_vocab = en, fr_vocab = fr, max_sequence_length = msl\<rparr>"

text \<open>
  Lines 128 to 132, for a module in which the global name \<^verbatim>\<open>batch_size\<close> is bound to
  \<open>g\<close>. Inside the loop \<^verbatim>\<open>curr\<close> is a pair, never \<^verbatim>\<open>None\<close>:
  \<^verbatim>\<open>next(self.data)\<close> has no default, so every exception of the stream, the end of the
  stream included, leaves the method.
\<close>

function pull_loop ::
  "int \<Rightarrow> ShardedCSVDataset \<Rightarrow> world \<Rightarrow> string list \<Rightarrow> string list \<Rightarrow> Entry_Type \<Rightarrow> int \<Rightarrow>
   (py_error + string list \<times> string list \<times> int) \<times> ShardedCSVDataset \<times> world" where
  "pull_loop g d w src trg cur cnt =
     (if cnt < g
      then (case dataset_next d w of
              (Inl e, d1, w1) \<Rightarrow> (Inl e, d1, w1)
            | (Inr nxt, d1, w1) \<Rightarrow>
                pull_loop g d1 w1 (src @ [fst cur]) (trg @ [snd cur]) nxt (cnt + 1))
      else (Inr (src, trg, cnt), d, w))"
  by pat_completeness auto
termination
  by (relation "measure (\<lambda>(g, d, w, src, trg, cur, cnt). nat (g - cnt))") auto

text \<open>
  \<^verbatim>\<open>torch.Tensor(seq)\<close> of a Python sequence builds the one-dimensional tensor of the
  sequence's elements (sizes are passed as separate arguments, not as a tuple). Its
  elements are 32-bit floats: an integer of magnitude up to \<open>2^53\<close> is a double as it
  is, and the double is rounded to the nearest float of 24 significant bits, ties to the
  even one. \<^verbatim>\<open>.long()\<close> then converts each float, an integer in value, to a 64-bit
  integer. The tensors of this program are therefore one-dimensional, and are lists of
  integers here.
\<close>

type_synonym tensor = "int list"

text \<open>The number of binary digits of a natural number (\<^verbatim>\<open>int.bit_length\<close>).\<close>

fun bit_length :: "nat \<Rightarrow> nat" where
  "bit_length n = (if n = 0 then 0 else Suc (bit_length (n div 2)))"

declare bit_length.simps [simp del]

text \<open>The multiple of \<open>q\<close> nearest to \<open>m\<close>; of two nearest ones, the even multiple.\<close>

definition round_half_even :: "nat \<Rightarrow> nat \<Rightarrow> nat" where
  "round_half_even m q =
     (let d = m div q; r = m mod q
      in if 2 * r < q then d * q
         else if q < 2 * r then (d + 1) * q
         else if even d then d * q else (d + 1) * q)"

definition float32_of_int :: "int \<Rightarrow> int" where
  "float32_of_int n =
     (if \<bar>n\<bar> < 2 ^ 24 then n
      else sgn n * int (round_half_even (nat \<bar>n\<bar>) (2 ^ (bit_length (nat \<bar>n\<bar>) - 24))))"

definition torch_long_of_int :: "world \<Rightarrow> int \<Rightarrow> py_error + int" where
  "torch_long_of_int w n =
     (if \<bar>n\<bar> \<le> 2 ^ 53 then Inr (float32_of_int n) else torch_big_int w n)"

fun torch_Tensor_long :: "world \<Rightarrow> int list \<Rightarrow> py_error + tensor" where
  "torch_Tensor_long w [] = Inr []"
| "torch_Tensor_long w (x # xs) =
     (case torch_long_of_int w x of
        Inl e \<Rightarrow> Inl e
      | Inr v \<Rightarrow>
          (case torch_Tensor_long w xs of
             Inl e \<Rightarrow> Inl e
           | Inr vs \<Rightarrow> Inr (v # vs)))"

text \<open>
  \<^verbatim>\<open>t[i][:n] = vals\<close> on a one-dimensional \<open>t\<close> with a Python list \<open>vals\<close>:
  \<^verbatim>\<open>t[i]\<close> raises \<^verbatim>\<open>IndexError\<close> out of range and is a zero-dimensional tensor
  otherwise; the item assignment on it first converts the value to be assigned, and a
  list is none of the values it accepts (a tensor or a number): \<^verbatim>\<open>TypeError\<close>,
  whatever the slice and the list are.
\<close>

definition assign_row_prefix :: "tensor \<Rightarrow> int \<Rightarrow> int list \<Rightarrow> py_error + tensor" where
  "assign_row_prefix t i vals =
     (case py_getitem t i of Inl e \<Rightarrow> Inl e | Inr elem \<Rightarrow> Inl TypeError)"

text \<open>
  \<^verbatim>\<open>[vocab.word2idx(word) for word in text]\<close>: iterating a Python string yields its
  characters, each a string of length one.
\<close>

definition encode_text :: "Vocabulary \<Rightarrow> string \<Rightarrow> int list" where
  "encode_text v txt = map (\<lambda>c. word2idx v [c]) txt"

text \<open>Lines 138 to 140, over the indices of \<^verbatim>\<open>range(count)\<close>.\<close>

fun fill_rows ::
  "Vocabulary \<Rightarrow> Vocabulary \<Rightarrow> string list \<Rightarrow> string list \<Rightarrow> int list \<Rightarrow> tensor \<Rightarrow> tensor \<Rightarrow>
   py_error + tensor \<times> tensor" where
  "fill_rows en fr src trg [] st tt = Inr (st, tt)"
| "fill_rows en fr src trg (i # rest) st tt =
     (case py_getitem src i of
        Inl e \<Rightarrow> Inl e
      | Inr s \<Rightarrow>
          (case assign_row_prefix st i (encode_text en s) of
             Inl e \<Rightarrow> Inl e
           | Inr st1 \<Rightarrow>
               (case py_getitem trg i of
                  Inl e \<Rightarrow> Inl e
                | Inr t \<Rightarrow>
                    (case assign_row_prefix tt i (encode_text fr t) of
                       Inl e \<Rightarrow> Inl e
                     | Inr tt1 \<Rightarrow> fill_rows en fr src trg rest st1 tt1))))"

text \<open>Lines 135 to 142.\<close>

definition assemble ::
  "world \<Rightarrow> ShardedBatchedIterator \<Rightarrow> string list \<Rightarrow> string list \<Rightarrow> int \<Rightarrow>
   py_error + tensor \<times> tensor" where
  "assemble w it src trg cnt =
     (case torch_Tensor_long w [cnt, max_sequence_length it] of
        Inl e \<Rightarrow> Inl e
      | Inr src_tensor \<Rightarrow>
          (case torch_Tensor_long w [cnt, max_sequence_length it] of
             Inl e \<Rightarrow> Inl e
           | Inr trg_tensor \<Rightarrow>
               fill_rows (en_vocab it) (fr_vocab it) src trg (map int [0..<nat cnt])
                 src_tensor trg_tensor))"

text \<open>
  Lines 120 to 132. The loop condition reads the global name \<^verbatim>\<open>batch_size\<close>, not the
  field: \<open>global_batch_size\<close> is its binding in the module, \<open>None\<close> when the name is
  unbound (the module as written binds no such name), and then evaluating the condition
  raises \<^verbatim>\<open>NameError\<close>. \<^verbatim>\<open>next(self.data, None)\<close> turns the end of the stream into
  \<^verbatim>\<open>None\<close>, for which the method raises \<^verbatim>\<open>StopIteration\<close> itself.
\<close>

definition pull_batch ::
  "int option \<Rightarrow> ShardedCSVDataset \<Rightarrow> world \<Rightarrow>
   (py_error + string list \<times> string list \<times> int) \<times> ShardedCSVDataset \<times> world" where
  "pull_batch global_batch_size d w =
     (case dataset_next d w of
        (Inl e, d1, w1) \<Rightarrow> (Inl e, d1, w1)
      | (Inr cur, d1, w1) \<Rightarrow>
          (case global_batch_size of
             None \<Rightarrow> (Inl NameError, d1, w1)
           | Some g \<Rightarrow> pull_loop g d1 w1 [] [] cur 0))"

text \<open>Lines 119 to 142: \<^verbatim>\<open>ShardedBatchedIterator.__next__\<close>.\<close>

definition batch_next ::
  "int option \<Rightarrow> ShardedBatchedIterator \<Rightarrow> world \<Rightarrow>
   (py_error + tensor \<times> tensor) \<times> ShardedBatchedIterator \<times> world" where
  "batch_next global_batch_size it w =
     (case pull_batch global_batch_size (data it) w of
        (Inl e, d1, w1) \<Rightarrow> (Inl e, it\<lparr>data := d1\<rparr>, w1)
      | (Inr (src, trg, cnt), d1, w1) \<Rightarrow> (assemble w1 it src trg cnt, it\<lparr>data := d1\<rparr>, w1))"

subsection \<open>Runs and example inputs\<close>

text \<open>
  CPython counts references: when the last reference to a file object is dropped, the
  object is finalized at once, which closes the file if it is still open. The reader's
  field \<^verbatim>\<open>curr_file\<close> is the only lasting reference to the current file.
\<close>

definition release_file :: "file_obj option \<Rightarrow> world \<Rightarrow> world" where
  "release_file fo w =
     (case fo of
        None \<Rightarrow> w
      | Some f \<Rightarrow>
          if fo_closed f then w
          else w\<lparr>open_handles := remove1 (fo_path f) (open_handles w)\<rparr>)"

text \<open>
  A client's calls on one reader, in order. \<^verbatim>\<open>reset\<close> assigns \<^verbatim>\<open>None\<close> to
  \<^verbatim>\<open>curr_file\<close> and so drops the current file object.
\<close>

datatype call = Next | Reset

fun run :: "call list \<Rightarrow> ShardedCSVDataset \<Rightarrow> world \<Rightarrow> ShardedCSVDataset \<times> world" where
  "run [] s w = (s, w)"
| "run (Next # cs) s w = (case dataset_next s w of (r, s1, w1) \<Rightarrow> run cs s1 w1)"
| "run (Reset # cs) s w = run cs (reset s) (release_file (curr_file s) w)"

text \<open>
  A world with the given directories and files, no open handle, all draws 0, and a torch
  that refuses integers beyond \<open>2^53\<close>.
\<close>

definition mk_world :: "(string \<times> string list) list \<Rightarrow> (string \<times> shard_file) list \<Rightarrow> world" where
  "mk_world ds fs = \<lparr>dirs = map_of ds, files = map_of fs, open_handles = [], rng = sconst 0,
                     torch_big_int = (\<lambda>n. Inl RuntimeError)\<rparr>"

text \<open>A freshly constructed reader over the given shard paths and line counts.\<close>

definition fresh_reader :: "string \<Rightarrow> bool \<Rightarrow> (string \<times> nat) list \<Rightarrow> ShardedCSVDataset" where
  "fresh_reader dir shuf counts =
     \<lparr>sharded_dir = dir, shuffle = shuf, sharded_files = map fst counts, file_counts = counts,
      curr_file = None, curr_file_name = None, curr_idx = 0, curr_data = [], shard_idx = - 1\<rparr>"

subsection \<open>Invariants of the reader\<close>

text \<open>
  The indices of a reader: the shard index is at least \<open>-1\<close>, the row index lies within
  the materialized rows, and a shard index at or beyond the number of shards goes with
  an exhausted current shard.
\<close>

definition idx_inv :: "ShardedCSVDataset \<Rightarrow> bool" where
  "idx_inv s \<longleftrightarrow>
     - 1 \<le> shard_idx s \<and> 0 \<le> curr_idx s \<and> curr_idx s \<le> int (length (curr_data s)) \<and>
     (int (length (sharded_files s)) \<le> shard_idx s \<longrightarrow> shard_exhausted s = Inr True)"

text \<open>The handles open in the world are exactly the reader's current file, if not closed.\<close>

definition handle_inv :: "ShardedCSVDataset \<Rightarrow> world \<Rightarrow> bool" where
  "handle_inv s w \<longleftrightarrow>
     open_handles w =
       (case curr_file s of None \<Rightarrow> [] | Some f \<Rightarrow> if fo_closed f then [] else [fo_path f])"

subsection \<open>Example worlds and readers\<close>

text \<open>
  A shard of two well-formed rows; a shard whose single row spans two physical lines; an
  empty shard; shards with a one-field and with a three-field row; a shard of three
  rows; a directory whose second shard has a one-field row; a vocabulary and an iterator.
\<close>

abbreviation shard_two_rows :: shard_file where
  "shard_two_rows \<equiv> \<lparr>num_lines = 2, csv_rows = [[''x'', ''y''], [''u'', ''v'']]\<rparr>"

abbreviation world_two_rows :: world where
  "world_two_rows \<equiv> mk_world [(''d'', [''a''])] [(''d/a'', shard_two_rows)]"

abbreviation reader_two_rows :: ShardedCSVDataset where
  "reader_two_rows \<equiv> fresh_reader ''d'' False [(''d/a'', 2)]"

abbreviation world_multiline :: world where
  "world_multiline \<equiv> mk_world [(''d'', [''a''])] [(''d/a'', \<lparr>num_lines = 2, csv_rows = [[''x'', ''y'']]\<rparr>)]"

abbreviation world_empty_shard :: world where
  "world_empty_shard \<equiv> mk_world [(''d'', [''e''])] [(''d/e'', \<lparr>num_lines = 0, csv_rows = []\<rparr>)]"

abbreviation world_short_row :: world where
  "world_short_row \<equiv> mk_world [(''d'', [''a''])] [(''d/a'', \<lparr>num_lines = 1, csv_rows = [[''x'']]\<rparr>)]"

abbreviation world_long_row :: world where
  "world_long_row \<equiv> mk_world [(''d'', [''a''])] [(''d/a'', \<lparr>num_lines = 1, csv_rows = [[''a'', ''b'', ''c'']]\<rparr>)]"

abbreviation reader_one_line :: ShardedCSVDataset where
  "reader_one_line \<equiv> fresh_reader ''d'' False [(''d/a'', 1)]"

abbreviation world_three_rows :: world where
  "world_three_rows \<equiv> mk_world [(''d'', [''a''])]
     [(''d/a'', \<lparr>num_lines = 3, csv_rows = [[''a1'', ''b1''], [''a2'', ''b2''], [''a3'', ''b3'']]\<rparr>)]"

abbreviation reader_three_rows :: ShardedCSVDataset where
  "reader_three_rows \<equiv> fresh_reader ''d'' False [(''d/a'', 3)]"

abbreviation vocab_example :: Vocabulary where
  "vocab_example \<equiv> \<lparr>token_ids = [(''ab'', 5), (''c'', 6)], unk_id = 1, pad_id = 0\<rparr>"

abbreviation iterator_example :: ShardedBatchedIterator where
  "iterator_example \<equiv> \<lparr>batch_size = 2, data = reader_three_rows, en_vocab = vocab_example,
     fr_vocab = vocab_example, max_sequence_length = 4\<rparr>"

abbreviation world_stale :: world where
  "world_stale \<equiv> mk_world [(''d'', [''a'', ''b''])]
     [(''d/a'', shard_two_rows), (''d/b'', \<lparr>num_lines = 2, csv_rows = [[''z'']]\<rparr>)]"

abbreviation reader_stale :: ShardedCSVDataset where
  "reader_stale \<equiv> fresh_reader ''d'' False [(''d/a'', 2), (''d/b'', 2)]"

section \<open>Properties\<close>

lemmas reader_defs = dataset_next_def shard_exhausted_def close_curr_file_def
  load_next_shard_def read_row_def py_getitem_def

lemmas init_defs = ShardedCSVDataset_init_def os_path_join_def get_num_lines_def
  mk_world_def fresh_reader_def random_shuffle_def

subsection \<open>Auxiliary lemmas\<close>

lemma py_getitem_nat:
  "py_getitem xs (int i) = (if i < length xs then Inr (xs ! i) else Inl IndexError)"
  by (simp add: py_getitem_def)

lemma py_getitem_0: "py_getitem xs 0 = (if xs = [] then Inl IndexError else Inr (xs ! 0))"
  using py_getitem_nat [of xs 0] by simp

lemma py_getitem_1: "py_getitem xs 1 = (if length xs < 2 then Inl IndexError else Inr (xs ! 1))"
  using py_getitem_nat [of xs 1] by auto

lemma materialize_ok:
  "\<forall>row\<in>set rows. 2 \<le> length row \<Longrightarrow>
   materialize rows = Inr (map (\<lambda>row. (row ! 0, row ! 1)) rows)"
  by (induction rows) (auto simp: py_getitem_0 py_getitem_1)

lemma materialize_short:
  "\<exists>row\<in>set rows. length row < 2 \<Longrightarrow> materialize rows = Inl IndexError"
proof (induction rows)
  case Nil
  then show ?case by simp
next
  case (Cons row rows)
  show ?case
  proof (cases "length row < 2")
    case True
    then show ?thesis by (auto simp: py_getitem_0 py_getitem_1)
  next
    case False
    with Cons.prems have "\<exists>row\<in>set rows. length row < 2" by auto
    with Cons.IH have "materialize rows = Inl IndexError" by simp
    with False show ?thesis by (auto simp: py_getitem_0 py_getitem_1)
  qed
qed

lemma materialize_length: "materialize rows = Inr ps \<Longrightarrow> length ps = length rows"
  by (induction rows arbitrary: ps) (auto split: sum.splits)

lemma shuffle_from_length: "length (fst (shuffle_from i xs r)) = length xs"
  by (induction i xs r rule: shuffle_from.induct) (simp_all add: Let_def)

lemma shuffle_from_mset:
  "i < length xs \<Longrightarrow> mset (fst (shuffle_from i xs r)) = mset xs"
proof (induction i xs r rule: shuffle_from.induct)
  case (1 xs r)
  then show ?case by simp
next
  case (2 i xs r)
  let ?j = "shd r mod (Suc i + 1)"
  have "?j < Suc i + 1" by (rule mod_less_divisor) simp
  then have j: "?j < length xs" using "2.prems" by linarith
  have "mset (xs[Suc i := xs ! ?j, ?j := xs ! Suc i]) = mset xs"
    using mset_swap [OF j "2.prems"] .
  moreover have "i < length (xs[Suc i := xs ! ?j, ?j := xs ! Suc i])" using "2.prems" by simp
  ultimately show ?case using "2.IH" [of ?j] by (simp add: Let_def)
qed

lemma random_shuffle_length: "length (fst (random_shuffle xs r)) = length xs"
  by (simp add: random_shuffle_def shuffle_from_length)

lemma random_shuffle_mset: "mset (fst (random_shuffle xs r)) = mset xs"
proof (cases xs)
  case Nil
  then show ?thesis by (simp add: random_shuffle_def)
next
  case (Cons a list)
  then show ?thesis by (simp add: random_shuffle_def shuffle_from_mset)
qed

lemma dataset_next_cases [consumes 1, case_names key_error read stop load]:
  assumes "dataset_next s w = (r, s1, w1)"
  obtains
    e where "shard_exhausted s = Inl e" "r = Inl e" "s1 = s" "w1 = w"
  | "shard_exhausted s = Inr False" "read_row s w = (r, s1, w1)"
  | e sc wc where "shard_exhausted s = Inr True" "close_curr_file s w = (sc, wc)"
      "load_next_shard sc wc = (Inl e, s1, w1)" "r = Inl e"
  | sc wc s2 w2 where "shard_exhausted s = Inr True" "close_curr_file s w = (sc, wc)"
      "load_next_shard sc wc = (Inr (), s2, w2)" "read_row s2 w2 = (r, s1, w1)"
proof (cases "shard_exhausted s")
  case (Inl e)
  with assms have "r = Inl e" "s1 = s" "w1 = w" by (simp_all add: dataset_next_def)
  then show ?thesis using that(1) [OF Inl] by blast
next
  case (Inr b)
  show ?thesis
  proof (cases b)
    case False
    with Inr assms have "read_row s w = (r, s1, w1)" by (simp add: dataset_next_def)
    then show ?thesis using that(2) Inr False by simp
  next
    case True
    obtain sc wc where c: "close_curr_file s w = (sc, wc)" by fastforce
    obtain r2 s2 w2 where l: "load_next_shard sc wc = (r2, s2, w2)" by (metis prod_cases3)
    show ?thesis
    proof (cases r2)
      case (Inl e)
      with assms \<open>shard_exhausted s = Inr b\<close> True c l have "r = Inl e" "s1 = s2" "w1 = w2" by (simp_all add: dataset_next_def)
      then show ?thesis using that(3) [of sc wc e] \<open>shard_exhausted s = Inr b\<close> True c l Inl by simp
    next
      case (Inr u)
      with assms \<open>shard_exhausted s = Inr b\<close> True c l have "read_row s2 w2 = (r, s1, w1)"
        by (simp add: dataset_next_def)
      then show ?thesis using that(4) [of sc wc s2 w2] \<open>shard_exhausted s = Inr b\<close> True c l Inr by simp
    qed
  qed
qed

lemma close_curr_file_eq:
  "close_curr_file s w =
     (s\<lparr>curr_file := map_option (\<lambda>f. f\<lparr>fo_closed := True\<rparr>) (curr_file s)\<rparr>,
      w\<lparr>open_handles := (case curr_file s of None \<Rightarrow> open_handles w
          | Some f \<Rightarrow> if fo_closed f then open_handles w else remove1 (fo_path f) (open_handles w))\<rparr>)"
  by (simp add: close_curr_file_def split: option.splits)

lemma shard_exhausted_cong:
  "curr_file_name s' = curr_file_name s \<Longrightarrow> file_counts s' = file_counts s \<Longrightarrow>
   curr_idx s' = curr_idx s \<Longrightarrow> (curr_file s' = None \<longleftrightarrow> curr_file s = None) \<Longrightarrow>
   shard_exhausted s' = shard_exhausted s"
  by (auto simp: shard_exhausted_def split: option.splits)

lemma read_row_frame:
  "read_row s w = (r, s1, w1) \<Longrightarrow>
   w1 = w \<and> sharded_dir s1 = sharded_dir s \<and> shuffle s1 = shuffle s \<and>
   sharded_files s1 = sharded_files s \<and> file_counts s1 = file_counts s \<and>
   curr_file s1 = curr_file s \<and> curr_file_name s1 = curr_file_name s \<and>
   curr_data s1 = curr_data s \<and> shard_idx s1 = shard_idx s"
  by (auto simp: read_row_def split: sum.splits)

lemma read_row_idx:
  "read_row s w = (r, s1, w1) \<Longrightarrow> 0 \<le> curr_idx s \<Longrightarrow> curr_idx s \<le> int (length (curr_data s)) \<Longrightarrow>
   (case r of Inl e \<Rightarrow> e = IndexError \<and> curr_idx s1 = curr_idx s \<and> curr_idx s = int (length (curr_data s))
            | Inr v \<Rightarrow> curr_idx s1 = curr_idx s + 1 \<and> curr_idx s < int (length (curr_data s))
                        \<and> v = curr_data s ! nat (curr_idx s))"
  by (auto simp: read_row_def py_getitem_def split: sum.splits if_splits)

lemma load_next_shard_frame:
  "load_next_shard s w = (r, s1, w1) \<Longrightarrow>
   sharded_dir s1 = sharded_dir s \<and> shuffle s1 = shuffle s \<and>
   sharded_files s1 = sharded_files s \<and> file_counts s1 = file_counts s \<and>
   shard_idx s1 = shard_idx s + 1 \<and>
   files w1 = files w \<and> dirs w1 = dirs w \<and> (\<not> shuffle s \<longrightarrow> rng w1 = rng w)"
  by (auto simp: load_next_shard_def Let_def split: sum.splits option.splits if_splits prod.splits)

lemma load_next_shard_stop:
  "int (length (sharded_files s)) \<le> shard_idx s + 1 \<Longrightarrow>
   load_next_shard s w = (Inl StopIteration, s\<lparr>shard_idx := shard_idx s + 1\<rparr>, w)"
  by (simp add: load_next_shard_def)

lemma load_next_shard_fail:
  "load_next_shard s w = (Inl e, s1, w1) \<Longrightarrow>
   curr_data s1 = curr_data s \<and>
   ((s1 = s\<lparr>shard_idx := shard_idx s + 1\<rparr> \<and> w1 = w) \<or>
    (\<exists>name. curr_idx s1 = 0 \<and> curr_file s1 = Some \<lparr>fo_path = name, fo_closed = False\<rparr> \<and>
       curr_file_name s1 = Some name \<and> open_handles w1 = name # open_handles w \<and>
       shard_idx s + 1 < int (length (sharded_files s))))"
  by (auto simp: load_next_shard_def Let_def split: sum.splits option.splits if_splits prod.splits)

lemma load_next_shard_ok:
  "load_next_shard s w = (Inr u, s1, w1) \<Longrightarrow>
   (\<exists>name. curr_idx s1 = 0 \<and> curr_file s1 = Some \<lparr>fo_path = name, fo_closed = False\<rparr> \<and>
       curr_file_name s1 = Some name \<and> open_handles w1 = name # open_handles w \<and>
       shard_idx s + 1 < int (length (sharded_files s)))"
  by (auto simp: load_next_shard_def Let_def split: sum.splits option.splits if_splits prod.splits)

lemma dataset_next_frame:
  assumes "dataset_next s w = (r, s1, w1)"
  shows "sharded_dir s1 = sharded_dir s \<and> shuffle s1 = shuffle s \<and>
   sharded_files s1 = sharded_files s \<and> file_counts s1 = file_counts s \<and>
   files w1 = files w \<and> dirs w1 = dirs w \<and> (\<not> shuffle s \<longrightarrow> rng w1 = rng w)"
  using assms
proof (cases rule: dataset_next_cases)
  case (key_error e)
  then show ?thesis by simp
next
  case read
  from read_row_frame [OF read(2)] show ?thesis by simp
next
  case (stop e sc wc)
  from load_next_shard_frame [OF stop(3)] stop(2) show ?thesis by (auto simp: close_curr_file_eq)
next
  case (load sc wc s2 w2)
  from load_next_shard_frame [OF load(3)] read_row_frame [OF load(4)] load(2) show ?thesis
    by (auto simp: close_curr_file_eq)
qed

lemma init_fields:
  "ShardedCSVDataset_init w dir shuf = Inr (s0, w0) \<Longrightarrow>
   curr_file s0 = None \<and> curr_file_name s0 = None \<and> curr_idx s0 = 0 \<and> curr_data s0 = [] \<and>
   shard_idx s0 = - 1 \<and> shuffle s0 = shuf \<and> sharded_dir s0 = dir \<and>
   files w0 = files w \<and> dirs w0 = dirs w \<and> open_handles w0 = open_handles w \<and>
   (\<not> shuf \<longrightarrow> rng w0 = rng w)"
  by (auto simp: ShardedCSVDataset_init_def Let_def split: option.splits sum.splits prod.splits if_splits)

lemma shard_exhausted_upd [simp]:
  "shard_exhausted (s\<lparr>curr_file := map_option g (curr_file s)\<rparr>) = shard_exhausted s"
  "shard_exhausted (s\<lparr>shard_idx := k\<rparr>) = shard_exhausted s"
  by (auto simp: shard_exhausted_def split: option.splits)

lemma idx_inv_init: "ShardedCSVDataset_init w dir shuf = Inr (s0, w0) \<Longrightarrow> idx_inv s0"
  using init_fields [of w dir shuf s0 w0] by (simp add: idx_inv_def)

lemma idx_inv_reset: "idx_inv (reset s)"
  by (simp add: idx_inv_def reset_def)

lemma idx_inv_next:
  assumes "dataset_next s w = (r, s1, w1)" and inv: "idx_inv s"
  shows "idx_inv s1"
  using assms(1)
proof (cases rule: dataset_next_cases)
  case (key_error e)
  with inv show ?thesis by simp
next
  case read
  from read(1) inv have lt: "shard_idx s < int (length (sharded_files s))"
    by (auto simp: idx_inv_def)
  from read_row_frame [OF read(2)] read_row_idx [OF read(2)] inv lt show ?thesis
    by (auto simp: idx_inv_def split: sum.splits)
next
  case (stop e sc wc)
  from stop(2) have sc: "sc = s\<lparr>curr_file := map_option (\<lambda>f. f\<lparr>fo_closed := True\<rparr>) (curr_file s)\<rparr>"
    by (simp add: close_curr_file_eq)
  have ex: "shard_exhausted sc = Inr True"
    using stop(1) by (simp add: sc)
  from load_next_shard_fail [OF stop(3)] load_next_shard_frame [OF stop(3)]
  show ?thesis
  proof (elim conjE disjE exE)
    assume a: "s1 = sc\<lparr>shard_idx := shard_idx sc + 1\<rparr>"
    have "shard_exhausted s1 = Inr True"
      using ex by (simp add: a)
    with inv show ?thesis by (simp add: idx_inv_def a sc)
  next
    fix name
    assume "curr_idx s1 = 0" "shard_idx sc + 1 < int (length (sharded_files sc))"
      "shard_idx s1 = shard_idx sc + 1" "sharded_files s1 = sharded_files sc"
    with inv show ?thesis by (simp add: idx_inv_def sc)
  qed
next
  case (load sc wc s2 w2)
  from load(2) have sc: "sc = s\<lparr>curr_file := map_option (\<lambda>f. f\<lparr>fo_closed := True\<rparr>) (curr_file s)\<rparr>"
    by (simp add: close_curr_file_eq)
  from load_next_shard_ok [OF load(3)] load_next_shard_frame [OF load(3)]
  have s2: "curr_idx s2 = 0" "shard_idx s2 = shard_idx s + 1"
    "shard_idx s2 < int (length (sharded_files s2))"
    by (auto simp: sc)
  from read_row_frame [OF load(4)] read_row_idx [OF load(4)] s2 inv show ?thesis
    by (auto simp: idx_inv_def Suc_le_eq split: sum.splits)
qed

lemma idx_inv_run: "idx_inv s \<Longrightarrow> run cs s w = (s', w') \<Longrightarrow> idx_inv s'"
proof (induction cs s w rule: run.induct)
  case (1 s w)
  then show ?case by simp
next
  case (2 cs s w)
  obtain r s1 w1 where n: "dataset_next s w = (r, s1, w1)" by (metis prod_cases3)
  with 2 idx_inv_next [OF n] show ?case by simp
next
  case (3 cs s w)
  then show ?case by (simp add: idx_inv_reset)
qed

lemma shard_idx_step:
  assumes "dataset_next s w = (r, s1, w1)"
  shows "shard_idx s1 = shard_idx s \<or> shard_idx s1 = shard_idx s + 1"
  using assms
proof (cases rule: dataset_next_cases)
  case (key_error e)
  then show ?thesis by simp
next
  case read
  from read_row_frame [OF read(2)] show ?thesis by simp
next
  case (stop e sc wc)
  from load_next_shard_frame [OF stop(3)] stop(2) show ?thesis by (auto simp: close_curr_file_eq)
next
  case (load sc wc s2 w2)
  from load_next_shard_frame [OF load(3)] read_row_frame [OF load(4)] load(2) show ?thesis
    by (auto simp: close_curr_file_eq)
qed

lemma next_after_end:
  assumes n: "dataset_next s w = (r, s1, w1)" and ex: "shard_exhausted s = Inr True"
    and ge: "int (length (sharded_files s)) \<le> shard_idx s"
  shows "r = Inl StopIteration \<and> shard_idx s1 = shard_idx s + 1"
proof -
  let ?sc = "fst (close_curr_file s w)" and ?wc = "snd (close_curr_file s w)"
  have "int (length (sharded_files ?sc)) \<le> shard_idx ?sc + 1"
    using ge by (simp add: close_curr_file_eq)
  from load_next_shard_stop [OF this, of ?wc] n ex show ?thesis
    by (auto simp: dataset_next_def close_curr_file_eq)
qed

lemma close_clears_handles:
  assumes "handle_inv s w" and "close_curr_file s w = (sc, wc)"
  shows "open_handles wc = [] \<and> handle_inv sc wc"
  using assms by (auto simp: handle_inv_def close_curr_file_eq split: option.splits if_splits)

lemma handle_inv_next:
  assumes "dataset_next s w = (r, s1, w1)" and inv: "handle_inv s w"
  shows "handle_inv s1 w1"
  using assms(1)
proof (cases rule: dataset_next_cases)
  case (key_error e)
  with inv show ?thesis by simp
next
  case read
  from read_row_frame [OF read(2)] inv show ?thesis by (simp add: handle_inv_def)
next
  case (stop e sc wc)
  from close_clears_handles [OF inv stop(2)] load_next_shard_fail [OF stop(3)]
  show ?thesis by (auto simp: handle_inv_def)
next
  case (load sc wc s2 w2)
  from close_clears_handles [OF inv load(2)] load_next_shard_ok [OF load(3)]
    read_row_frame [OF load(4)]
  show ?thesis by (auto simp: handle_inv_def)
qed

lemma handle_inv_pull:
  "handle_inv s w \<Longrightarrow> pull n s w = (rs, s', w') \<Longrightarrow> handle_inv s' w'"
proof (induction n arbitrary: s w rs)
  case 0
  then show ?case by simp
next
  case (Suc n)
  obtain r s1 w1 where n: "dataset_next s w = (r, s1, w1)" by (metis prod_cases3)
  obtain rs2 s2 w2 where p: "pull n s1 w1 = (rs2, s2, w2)" by (metis prod_cases3)
  from Suc.prems(2) n p have "s2 = s'" "w2 = w'" by simp_all
  with p have "pull n s1 w1 = (rs2, s', w')" by simp
  from Suc.IH [OF handle_inv_next [OF n Suc.prems(1)] this] show ?case .
qed


lemma read_row_world:
  "read_row s w' = (fst (read_row s w), fst (snd (read_row s w)), w')"
  by (simp add: read_row_def split: sum.splits)

lemma load_next_shard_world:
  assumes "files w' = files w" "rng w' = rng w"
  shows "\<exists>w1'. load_next_shard s w' =
            (fst (load_next_shard s w), fst (snd (load_next_shard s w)), w1') \<and>
          files w1' = files (snd (snd (load_next_shard s w))) \<and>
          rng w1' = rng (snd (snd (load_next_shard s w)))"
  using assms
  by (auto simp: load_next_shard_def Let_def split: sum.splits option.splits prod.splits)

lemma dataset_next_world:
  assumes f: "files w' = files w" and g: "rng w' = rng w"
    and n: "dataset_next s w = (r, s1, w1)"
  shows "\<exists>w1'. dataset_next s w' = (r, s1, w1') \<and> files w1' = files w1 \<and> rng w1' = rng w1"
proof (cases "shard_exhausted s")
  case (Inl e)
  with n f g show ?thesis by (auto simp: dataset_next_def)
next
  case (Inr b)
  show ?thesis
  proof (cases b)
    case False
    with Inr n have "read_row s w = (r, s1, w1)" by (simp add: dataset_next_def)
    with read_row_world [of s w' w] read_row_frame [OF this] Inr False f g show ?thesis
      by (simp add: dataset_next_def)
  next
    case True
    obtain sc wc where c: "close_curr_file s w = (sc, wc)" by fastforce
    obtain wc' where c': "close_curr_file s w' = (sc, wc')" "files wc' = files wc" "rng wc' = rng wc"
      using c f g by (auto simp: close_curr_file_eq)
    obtain r2 s2 w2 where l: "load_next_shard sc wc = (r2, s2, w2)" by (metis prod_cases3)
    from load_next_shard_world [OF c'(2,3), of sc] l
    obtain w2' where l': "load_next_shard sc wc' = (r2, s2, w2')" "files w2' = files w2" "rng w2' = rng w2"
      by auto
    show ?thesis
    proof (cases r2)
      case (Inl e)
      with n Inr True c l have "r = Inl e" "s1 = s2" "w1 = w2" by (simp_all add: dataset_next_def)
      with Inr True c' l' Inl show ?thesis by (simp add: dataset_next_def)
    next
      case (Inr u)
      with n \<open>shard_exhausted s = Inr b\<close> True c l have rr: "read_row s2 w2 = (r, s1, w1)"
        by (simp add: dataset_next_def)
      with read_row_world [of s2 w2' w2] read_row_frame [OF rr] \<open>shard_exhausted s = Inr b\<close> True c' l' Inr
      show ?thesis by (simp add: dataset_next_def)
    qed
  qed
qed

lemma pull_world:
  "files w' = files w \<Longrightarrow> rng w' = rng w \<Longrightarrow>
   fst (pull n s w') = fst (pull n s w) \<and> fst (snd (pull n s w')) = fst (snd (pull n s w))"
proof (induction n arbitrary: s w w')
  case 0
  then show ?case by simp
next
  case (Suc n)
  obtain r s1 w1 where n: "dataset_next s w = (r, s1, w1)" by (metis prod_cases3)
  from dataset_next_world [OF Suc.prems n]
  obtain w1' where n': "dataset_next s w' = (r, s1, w1')" "files w1' = files w1" "rng w1' = rng w1"
    by auto
  from Suc.IH [OF n'(2,3), of s1] n n' show ?case by (simp add: case_prod_beta)
qed

lemma pull_frame:
  "pull n s w = (rs, s1, w1) \<Longrightarrow>
   sharded_dir s1 = sharded_dir s \<and> shuffle s1 = shuffle s \<and>
   sharded_files s1 = sharded_files s \<and> file_counts s1 = file_counts s \<and>
   files w1 = files w \<and> dirs w1 = dirs w \<and> (\<not> shuffle s \<longrightarrow> rng w1 = rng w)"
proof (induction n arbitrary: s w rs)
  case 0
  then show ?case by simp
next
  case (Suc n)
  obtain r sa wa where n: "dataset_next s w = (r, sa, wa)" by (metis prod_cases3)
  obtain rs2 s2 w2 where p: "pull n sa wa = (rs2, s2, w2)" by (metis prod_cases3)
  from Suc.prems n p have "s2 = s1" "w2 = w1" by simp_all
  with p have "pull n sa wa = (rs2, s1, w1)" by simp
  from Suc.IH [OF this] dataset_next_frame [OF n] show ?case by simp
qed

lemma reset_of_init:
  assumes "ShardedCSVDataset_init w dir shuf = Inr (s0, w0)"
    and "sharded_dir s1 = sharded_dir s0" "shuffle s1 = shuffle s0"
    and "sharded_files s1 = sharded_files s0" "file_counts s1 = file_counts s0"
  shows "reset s1 = s0"
  using init_fields [OF assms(1)] assms(2-)
  by (intro ShardedCSVDataset.equality) (simp_all add: reset_def)

lemma pull_Suc_end:
  "pull (Suc n) s w =
     (case pull n s w of (rs, s1, w1) \<Rightarrow>
        (case dataset_next s1 w1 of (r, s2, w2) \<Rightarrow> (rs @ [r], s2, w2)))"
proof (induction n arbitrary: s w)
  case 0
  then show ?case by (simp split: prod.splits)
next
  case (Suc n)
  obtain r sa wa where n: "dataset_next s w = (r, sa, wa)" by (metis prod_cases3)
  have "pull (Suc (Suc n)) s w = (case pull (Suc n) sa wa of (rs, s2, w2) \<Rightarrow> (r # rs, s2, w2))"
    using n by simp
  also have "\<dots> = (case pull n sa wa of (rs, s1, w1) \<Rightarrow>
        (case dataset_next s1 w1 of (r', s2, w2) \<Rightarrow> (r # rs @ [r'], s2, w2)))"
    by (simp only: Suc.IH) (simp split: prod.splits)
  also have "\<dots> = (case pull (Suc n) s w of (rs, s1, w1) \<Rightarrow>
        (case dataset_next s1 w1 of (r, s2, w2) \<Rightarrow> (rs @ [r], s2, w2)))"
    using n by (simp split: prod.splits)
  finally show ?case .
qed

lemma pull_add:
  "pull (m + n) s w =
     (case pull m s w of (rs, s1, w1) \<Rightarrow>
        (case pull n s1 w1 of (rs', s2, w2) \<Rightarrow> (rs @ rs', s2, w2)))"
proof (induction m arbitrary: s w)
  case 0
  then show ?case by (simp split: prod.splits)
next
  case (Suc m)
  obtain r sa wa where n: "dataset_next s w = (r, sa, wa)" by (metis prod_cases3)
  show ?case using n by (simp add: Suc.IH split: prod.splits)
qed

lemma next_in_shard:
  assumes "curr_file s \<noteq> None" "curr_file_name s = Some name"
    "map_of (file_counts s) name = Some c" "curr_idx s = int i" "i < c"
  shows "dataset_next s w =
     (if i < length (curr_data s) then (Inr (curr_data s ! i), s\<lparr>curr_idx := int (Suc i)\<rparr>, w)
      else (Inl IndexError, s, w))"
proof -
  have "shard_exhausted s = Inr False"
    using assms by (auto simp: shard_exhausted_def split: option.splits)
  then show ?thesis using assms(4)
    by (simp add: dataset_next_def read_row_def py_getitem_nat)
qed

lemma exhausted_in_shard:
  assumes "curr_file s \<noteq> None" "curr_file_name s = Some name"
    "map_of (file_counts s) name = Some c" "curr_idx s = int c"
  shows "shard_exhausted s = Inr True"
  using assms by (auto simp: shard_exhausted_def split: option.splits)

lemma pull_in_shard:
  assumes "curr_file s \<noteq> None" "curr_file_name s = Some name"
    "map_of (file_counts s) name = Some c" "curr_idx s = int i"
    "i + m \<le> length (curr_data s)" "i + m \<le> c"
  shows "pull m s w = (map Inr (take m (drop i (curr_data s))), s\<lparr>curr_idx := int (i + m)\<rparr>, w)"
  using assms
proof (induction m arbitrary: s i)
  case 0
  then show ?case by simp
next
  case (Suc m)
  have lt: "i < length (curr_data s)" "i < c" using Suc.prems by simp_all
  have n: "dataset_next s w = (Inr (curr_data s ! i), s\<lparr>curr_idx := int (Suc i)\<rparr>, w)"
    using next_in_shard [OF Suc.prems(1-4) lt(2)] lt(1) by simp
  let ?s1 = "s\<lparr>curr_idx := int (Suc i)\<rparr>"
  have "pull m ?s1 w =
      (map Inr (take m (drop (Suc i) (curr_data ?s1))), ?s1\<lparr>curr_idx := int (Suc i + m)\<rparr>, w)"
    using Suc.prems by (intro Suc.IH) simp_all
  moreover have "take (Suc m) (drop i (curr_data s)) = curr_data s ! i # take m (drop (Suc i) (curr_data s))"
    using lt(1) by (simp add: Cons_nth_drop_Suc [symmetric])
  ultimately show ?case using n by simp
qed

lemma load_next_shard_enter:
  assumes "shard_idx s + 1 = int k" "k < length (sharded_files s)"
    "files w (sharded_files s ! k) = Some sf" "materialize (csv_rows sf) = Inr ps"
  shows "\<exists>s' w'. load_next_shard s w = (Inr (), s', w') \<and>
     curr_file s' = Some \<lparr>fo_path = sharded_files s ! k, fo_closed = False\<rparr> \<and>
     curr_file_name s' = Some (sharded_files s ! k) \<and> curr_idx s' = 0 \<and> shard_idx s' = int k \<and>
     length (curr_data s') = length ps \<and> mset (curr_data s') = mset ps \<and>
     (\<not> shuffle s \<longrightarrow> curr_data s' = ps) \<and>
     sharded_files s' = sharded_files s \<and> file_counts s' = file_counts s \<and>
     shuffle s' = shuffle s \<and> sharded_dir s' = sharded_dir s \<and> files w' = files w"
proof -
  have g: "py_getitem (sharded_files s) (int k) = Inr (sharded_files s ! k)"
    using assms(2) by (simp add: py_getitem_nat)
  show ?thesis
  proof (cases "shuffle s")
    case False
    then show ?thesis using assms g by (simp add: load_next_shard_def Let_def)
  next
    case True
    obtain D r where sh: "random_shuffle ps (rng w) = (D, r)" by fastforce
    have "length D = length ps" "mset D = mset ps"
      using random_shuffle_length [of ps "rng w"] random_shuffle_mset [of ps "rng w"] sh by simp_all
    then show ?thesis using True assms g sh by (simp add: load_next_shard_def Let_def)
  qed
qed

lemma load_next_shard_short:
  assumes "shard_idx s + 1 = int k" "k < length (sharded_files s)"
    "files w (sharded_files s ! k) = Some sf" "materialize (csv_rows sf) = Inl e"
  shows "fst (load_next_shard s w) = Inl e"
proof -
  have g: "py_getitem (sharded_files s) (int k) = Inr (sharded_files s ! k)"
    using assms(2) by (simp add: py_getitem_nat)
  show ?thesis using assms g by (simp add: load_next_shard_def Let_def)
qed


lemma enter_shard:
  assumes "shard_exhausted s = Inr True" "shard_idx s + 1 = int k" "k < length (sharded_files s)"
    "files w (sharded_files s ! k) = Some sf" "materialize (csv_rows sf) = Inr ps"
  shows "\<exists>s2 w2. dataset_next s w = read_row s2 w2 \<and>
     curr_file s2 = Some \<lparr>fo_path = sharded_files s ! k, fo_closed = False\<rparr> \<and>
     curr_file_name s2 = Some (sharded_files s ! k) \<and> curr_idx s2 = 0 \<and> shard_idx s2 = int k \<and>
     length (curr_data s2) = length ps \<and> mset (curr_data s2) = mset ps \<and>
     (\<not> shuffle s \<longrightarrow> curr_data s2 = ps) \<and>
     sharded_files s2 = sharded_files s \<and> file_counts s2 = file_counts s \<and>
     shuffle s2 = shuffle s \<and> sharded_dir s2 = sharded_dir s \<and> files w2 = files w"
proof -
  obtain sc wc where c: "close_curr_file s w = (sc, wc)" by fastforce
  then have sc: "shard_idx sc = shard_idx s" "sharded_files sc = sharded_files s"
    "file_counts sc = file_counts s" "shuffle sc = shuffle s" "sharded_dir sc = sharded_dir s"
    "files wc = files w"
    by (auto simp: close_curr_file_eq)
  have "\<exists>s' w'. load_next_shard sc wc = (Inr (), s', w') \<and>
     curr_file s' = Some \<lparr>fo_path = sharded_files sc ! k, fo_closed = False\<rparr> \<and>
     curr_file_name s' = Some (sharded_files sc ! k) \<and> curr_idx s' = 0 \<and> shard_idx s' = int k \<and>
     length (curr_data s') = length ps \<and> mset (curr_data s') = mset ps \<and>
     (\<not> shuffle sc \<longrightarrow> curr_data s' = ps) \<and>
     sharded_files s' = sharded_files sc \<and> file_counts s' = file_counts sc \<and>
     shuffle s' = shuffle sc \<and> sharded_dir s' = sharded_dir sc \<and> files w' = files wc"
    using assms sc by (intro load_next_shard_enter) simp_all
  then obtain s2 w2 where l: "load_next_shard sc wc = (Inr (), s2, w2)"
    and f: "curr_file s2 = Some \<lparr>fo_path = sharded_files sc ! k, fo_closed = False\<rparr>"
     "curr_file_name s2 = Some (sharded_files sc ! k)" "curr_idx s2 = 0" "shard_idx s2 = int k"
     "length (curr_data s2) = length ps" "mset (curr_data s2) = mset ps"
     "\<not> shuffle sc \<longrightarrow> curr_data s2 = ps"
     "sharded_files s2 = sharded_files sc" "file_counts s2 = file_counts sc"
     "shuffle s2 = shuffle sc" "sharded_dir s2 = sharded_dir sc" "files w2 = files wc"
    by blast
  have "dataset_next s w = read_row s2 w2"
    using assms(1) c l by (simp add: dataset_next_def)
  with f sc show ?thesis by auto
qed

lemma shard_pass:
  assumes "shard_exhausted s = Inr True" "shard_idx s + 1 = int k" "k < length (sharded_files s)"
    "files w (sharded_files s ! k) = Some sf" "materialize (csv_rows sf) = Inr ps"
    "map_of (file_counts s) (sharded_files s ! k) = Some c"
    "m \<le> length ps" "Suc m \<le> c"
  shows "\<exists>D s' w'. pull (Suc m) s w =
       (map Inr (take m D) @ [if m < length D then Inr (D ! m) else Inl IndexError], s', w') \<and>
     length D = length ps \<and> mset D = mset ps \<and> (\<not> shuffle s \<longrightarrow> D = ps) \<and>
     curr_data s' = D \<and> curr_idx s' = int (if m < length D then Suc m else m) \<and>
     curr_file s' \<noteq> None \<and> curr_file_name s' = Some (sharded_files s ! k) \<and>
     shard_idx s' = int k \<and> sharded_files s' = sharded_files s \<and>
     file_counts s' = file_counts s \<and> shuffle s' = shuffle s \<and>
     sharded_dir s' = sharded_dir s \<and> files w' = files w"
  using assms(7,8)
proof (induction m)
  case 0
  from enter_shard [OF assms(1-5)] obtain s2 w2 where
    n: "dataset_next s w = read_row s2 w2" and
    f: "curr_file s2 = Some \<lparr>fo_path = sharded_files s ! k, fo_closed = False\<rparr>"
     "curr_file_name s2 = Some (sharded_files s ! k)" "curr_idx s2 = 0" "shard_idx s2 = int k"
     "length (curr_data s2) = length ps" "mset (curr_data s2) = mset ps"
     "\<not> shuffle s \<longrightarrow> curr_data s2 = ps"
     "sharded_files s2 = sharded_files s" "file_counts s2 = file_counts s"
     "shuffle s2 = shuffle s" "sharded_dir s2 = sharded_dir s" "files w2 = files w"
    by blast
  show ?case
  proof (cases "curr_data s2 = []")
    case True
    then have "pull (Suc 0) s w = ([Inl IndexError], s2, w2)"
      using n f(3) by (simp add: read_row_def py_getitem_0)
    with f True show ?thesis by (intro exI [of _ "curr_data s2"] exI [of _ s2] exI [of _ w2]) simp
  next
    case False
    then have "pull (Suc 0) s w = ([Inr (curr_data s2 ! 0)], s2\<lparr>curr_idx := 1\<rparr>, w2)"
      using n f(3) by (simp add: read_row_def py_getitem_0)
    moreover have "ps \<noteq> []" using False f(5) by auto
    ultimately show ?thesis using f False
      by (intro exI [of _ "curr_data s2"] exI [of _ "s2\<lparr>curr_idx := 1\<rparr>"] exI [of _ w2]) simp
  qed
next
  case (Suc m)
  then have "m \<le> length ps" "Suc m \<le> c" by simp_all
  from Suc.IH [OF this] obtain D s1 w1 where
    p: "pull (Suc m) s w =
       (map Inr (take m D) @ [if m < length D then Inr (D ! m) else Inl IndexError], s1, w1)" and
    f: "length D = length ps" "mset D = mset ps" "\<not> shuffle s \<longrightarrow> D = ps"
     "curr_data s1 = D" "curr_idx s1 = int (if m < length D then Suc m else m)"
     "curr_file s1 \<noteq> None" "curr_file_name s1 = Some (sharded_files s ! k)"
     "shard_idx s1 = int k" "sharded_files s1 = sharded_files s"
     "file_counts s1 = file_counts s" "shuffle s1 = shuffle s"
     "sharded_dir s1 = sharded_dir s" "files w1 = files w"
    by blast
  have lt: "m < length D" using Suc.prems f(1) by simp
  then have i: "curr_idx s1 = int (Suc m)" using f(5) by simp
  have c: "map_of (file_counts s1) (sharded_files s ! k) = Some c" using assms(6) f(10) by simp
  have "Suc m < c" using Suc.prems by simp
  from next_in_shard [OF f(6,7) c i this, of w1]
  have n: "dataset_next s1 w1 =
     (if Suc m < length D then (Inr (D ! Suc m), s1\<lparr>curr_idx := int (Suc (Suc m))\<rparr>, w1)
      else (Inl IndexError, s1, w1))" by (simp add: f(4))
  have t: "map Inr (take m D) @ [Inr (D ! m)] = map Inr (take (Suc m) D)"
    using lt by (simp add: take_Suc_conv_app_nth)
  show ?case
  proof (cases "Suc m < length D")
    case True
    with p n lt t have "pull (Suc (Suc m)) s w =
       (map Inr (take (Suc m) D) @ [Inr (D ! Suc m)], s1\<lparr>curr_idx := int (Suc (Suc m))\<rparr>, w1)"
      by (simp add: pull_Suc_end [of "Suc m"] del: pull.simps)
    with f True show ?thesis
      by (intro exI [of _ D] exI [of _ "s1\<lparr>curr_idx := int (Suc (Suc m))\<rparr>"] exI [of _ w1]) simp
  next
    case False
    with p n lt t have "pull (Suc (Suc m)) s w =
       (map Inr (take (Suc m) D) @ [Inl IndexError], s1, w1)"
      by (simp add: pull_Suc_end [of "Suc m"] del: pull.simps)
    with f i False show ?thesis by (intro exI [of _ D] exI [of _ s1] exI [of _ w1]) simp
  qed
qed

lemma update_fresh: "k \<notin> fst ` set al \<Longrightarrow> AList.update k v al = al @ [(k, v)]"
  by (induction al) auto

lemma count_files_distinct:
  assumes "distinct fs" "set fs \<inter> fst ` set acc = {}" "\<forall>f\<in>set fs. files w f \<noteq> None"
  shows "count_files w fs acc = Inr (acc @ map (\<lambda>f. (f, num_lines (the (files w f)))) fs)"
  using assms
proof (induction fs arbitrary: acc)
  case Nil
  then show ?case by simp
next
  case (Cons f fs)
  from Cons.prems obtain sf where sf: "files w f = Some sf" by auto
  have fresh: "f \<notin> fst ` set acc" using Cons.prems(2) by auto
  have "set fs \<inter> fst ` set (acc @ [(f, num_lines sf)]) = {}"
    using Cons.prems(1,2) by auto
  with Cons.IH [of "acc @ [(f, num_lines sf)]"] Cons.prems
  have "count_files w fs (acc @ [(f, num_lines sf)]) =
      Inr ((acc @ [(f, num_lines sf)]) @ map (\<lambda>f. (f, num_lines (the (files w f)))) fs)"
    by simp
  then show ?case using sf fresh by (simp add: get_num_lines_def update_fresh)
qed

lemma os_path_join_prefix:
  "CHR ''/'' \<notin> set f \<Longrightarrow>
   os_path_join d f = (if d = [] \<or> last d = CHR ''/'' then d else d @ ''/'') @ f"
  by (cases f) (auto simp: os_path_join_def)

lemma os_path_join_distinct:
  assumes "distinct names" "\<forall>n\<in>set names. CHR ''/'' \<notin> set n"
  shows "distinct (map (os_path_join d) names)"
proof -
  have "inj_on (os_path_join d) (set names)"
    using assms(2) by (auto simp: inj_on_def os_path_join_prefix)
  with assms(1) show ?thesis by (simp add: distinct_map)
qed

lemma map_of_counts:
  "distinct fs \<Longrightarrow> f \<in> set fs \<Longrightarrow> map_of (map (\<lambda>f. (f, g f)) fs) f = Some (g f)"
  by (induction fs) auto

lemma init_ok:
  assumes "dirs w dir = Some names" "distinct names" "\<forall>n\<in>set names. CHR ''/'' \<notin> set n"
    "\<forall>n\<in>set names. files w (os_path_join dir n) \<noteq> None"
  shows "\<exists>s0 w0. ShardedCSVDataset_init w dir shuf = Inr (s0, w0) \<and>
     mset (sharded_files s0) = mset (map (os_path_join dir) names) \<and>
     file_counts s0 = map (\<lambda>f. (f, num_lines (the (files w f)))) (sharded_files s0) \<and>
     files w0 = files w"
proof -
  let ?joined = "map (os_path_join dir) names"
  obtain fs r where sh: "(if shuf then random_shuffle ?joined (rng w) else (?joined, rng w)) = (fs, r)"
    by fastforce
  have ms: "mset fs = mset ?joined"
    using sh random_shuffle_mset [of ?joined "rng w"] by (auto split: if_splits)
  have "distinct ?joined" using assms(2,3) by (rule os_path_join_distinct)
  then have d: "distinct fs" using ms by (metis mset_eq_imp_distinct_iff)
  have "set fs = set ?joined" using ms by (rule mset_eq_setD)
  then have ex: "\<forall>f\<in>set fs. files (w\<lparr>rng := r\<rparr>) f \<noteq> None" using assms(4) by auto
  have "count_files (w\<lparr>rng := r\<rparr>) fs [] =
      Inr ([] @ map (\<lambda>f. (f, num_lines (the (files (w\<lparr>rng := r\<rparr>) f)))) fs)"
    using d ex by (intro count_files_distinct) simp_all
  then show ?thesis using assms(1) sh ms
    by (simp add: ShardedCSVDataset_init_def Let_def)
qed

lemma next_at_end:
  assumes ex: "shard_exhausted s = Inr True"
    and ge: "int (length (sharded_files s)) \<le> shard_idx s + 1"
  shows "\<exists>s' w'. dataset_next s w = (Inl StopIteration, s', w') \<and> shard_idx s' = shard_idx s + 1"
proof -
  let ?sc = "fst (close_curr_file s w)" and ?wc = "snd (close_curr_file s w)"
  have "int (length (sharded_files ?sc)) \<le> shard_idx ?sc + 1"
    using ge by (simp add: close_curr_file_eq)
  from load_next_shard_stop [OF this, of ?wc] ex show ?thesis
    by (simp add: dataset_next_def close_curr_file_eq)
qed

lemma drain_from:
  assumes "\<forall>f\<in>set (sharded_files s). \<exists>sf. F f = Some sf \<and> length (csv_rows sf) = c f \<and>
      0 < c f \<and> (\<forall>row\<in>set (csv_rows sf). 2 \<le> length row) \<and>
      map_of (file_counts s) f = Some (c f)"
    and "files w = F" and "shard_exhausted s = Inr True"
    and "shard_idx s + 1 = int k" and "k \<le> length (sharded_files s)"
  shows "\<exists>ps s' w'.
     pull (Suc (sum_list (map c (drop k (sharded_files s))))) s w =
       (map Inr ps @ [Inl StopIteration], s', w') \<and>
     length ps = sum_list (map c (drop k (sharded_files s)))"
  using assms
proof (induction "length (sharded_files s) - k" arbitrary: s w k)
  case 0
  then have k: "k = length (sharded_files s)" by simp
  then have "int (length (sharded_files s)) \<le> shard_idx s + 1" using "0.prems"(4) by simp
  from next_at_end [OF "0.prems"(3) this, of w] obtain s' w' where
    "dataset_next s w = (Inl StopIteration, s', w')" by blast
  then have "pull (Suc 0) s w = (map Inr [] @ [Inl StopIteration], s', w')" by simp
  then show ?case using k by (intro exI [of _ "[]"] exI [of _ s'] exI [of _ w']) simp
next
  case (Suc n)
  let ?fs = "sharded_files s"
  let ?f = "?fs ! k"
  have klt: "k < length ?fs" using Suc.hyps(2) by simp
  then have "?f \<in> set ?fs" by simp
  with Suc.prems(1) obtain sf where sf: "F ?f = Some sf" "length (csv_rows sf) = c ?f" "0 < c ?f"
    "\<forall>row\<in>set (csv_rows sf). 2 \<le> length row" "map_of (file_counts s) ?f = Some (c ?f)"
    by blast
  let ?ps = "map (\<lambda>row. (row ! 0, row ! 1)) (csv_rows sf)"
  have m: "materialize (csv_rows sf) = Inr ?ps" using sf(4) by (rule materialize_ok)
  have fw: "files w ?f = Some sf" using sf(1) Suc.prems(2) by simp
  have b: "c ?f - 1 \<le> length ?ps" "Suc (c ?f - 1) \<le> c ?f" using sf(2,3) by simp_all
  from shard_pass [OF Suc.prems(3,4) klt fw m sf(5) b] obtain D s1 w1 where
    p: "pull (Suc (c ?f - 1)) s w =
       (map Inr (take (c ?f - 1) D) @
          [if c ?f - 1 < length D then Inr (D ! (c ?f - 1)) else Inl IndexError], s1, w1)" and
    f: "length D = length ?ps" "curr_data s1 = D"
       "curr_idx s1 = int (if c ?f - 1 < length D then Suc (c ?f - 1) else c ?f - 1)"
       "curr_file s1 \<noteq> None" "curr_file_name s1 = Some ?f"
       "shard_idx s1 = int k" "sharded_files s1 = ?fs" "file_counts s1 = file_counts s"
       "files w1 = files w"
    by blast
  have len: "length D = c ?f" using f(1) sf(2) by simp
  have "map Inr (take (c ?f - 1) D) @ [Inr (D ! (c ?f - 1))] = map Inr D"
    using len sf(3) by (metis (no_types, lifting) Suc_pred' lessI list.simps(8,9) map_append
        order_refl take_Suc_conv_app_nth take_all)
  with p len sf(3) have p1: "pull (c ?f) s w = (map Inr D, s1, w1)" by simp
  have i: "curr_idx s1 = int (c ?f)" using f(3) len sf(3) by simp
  have c1: "map_of (file_counts s1) ?f = Some (c ?f)" using sf(5) f(8) by simp
  have ex1: "shard_exhausted s1 = Inr True" using exhausted_in_shard [OF f(4,5) c1 i] .
  have wf1: "\<forall>f\<in>set (sharded_files s1). \<exists>sf. F f = Some sf \<and> length (csv_rows sf) = c f \<and>
      0 < c f \<and> (\<forall>row\<in>set (csv_rows sf). 2 \<le> length row) \<and>
      map_of (file_counts s1) f = Some (c f)"
    using Suc.prems(1) f(7,8) by simp
  have n1: "n = length (sharded_files s1) - Suc k" using Suc.hyps(2) f(7) by simp
  have "\<exists>ps s' w'.
     pull (Suc (sum_list (map c (drop (Suc k) (sharded_files s1))))) s1 w1 =
       (map Inr ps @ [Inl StopIteration], s', w') \<and>
     length ps = sum_list (map c (drop (Suc k) (sharded_files s1)))"
    using wf1 f(9) Suc.prems(2) ex1 f(6) klt f(7) by (intro Suc.hyps(1) [OF n1]) simp_all
  then obtain ps' s' w' where
    p2: "pull (Suc (sum_list (map c (drop (Suc k) ?fs)))) s1 w1 =
       (map Inr ps' @ [Inl StopIteration], s', w')"
    and l2: "length ps' = sum_list (map c (drop (Suc k) ?fs))"
    using f(7) by auto
  have dr: "drop k ?fs = ?f # drop (Suc k) ?fs" using klt by (simp add: Cons_nth_drop_Suc)
  have e: "Suc (sum_list (map c (drop k ?fs))) = c ?f + Suc (sum_list (map c (drop (Suc k) ?fs)))"
    by (simp add: dr)
  have "pull (c ?f + Suc (sum_list (map c (drop (Suc k) ?fs)))) s w =
      (map Inr (D @ ps') @ [Inl StopIteration], s', w')"
    using pull_add [of "c ?f" "Suc (sum_list (map c (drop (Suc k) ?fs)))" s w]
    by (simp add: p1 p2 del: pull.simps add_Suc_right)
  then have "pull (Suc (sum_list (map c (drop k ?fs)))) s w =
      (map Inr (D @ ps') @ [Inl StopIteration], s', w')"
    by (simp only: e)
  moreover have "length (D @ ps') = sum_list (map c (drop k ?fs))"
    using len l2 by (simp add: dr)
  ultimately show ?case by blast
qed

lemma sum_list_mset_cong: "mset xs = mset ys \<Longrightarrow> sum_list (map f xs) = sum_list (map (f::'a \<Rightarrow> nat) ys)"
  by (metis mset_map sum_mset_sum_list)

lemmas batch_defs = batch_next_def pull_batch_def assemble_def torch_long_of_int_def
  float32_of_int_def assign_row_prefix_def encode_text_def word2idx_def

subsection \<open>C1: length and drain\<close>

text \<open>
  C1, as claimed: for every directory of shard files with physical line counts
  \<open>c1..cN\<close>, a fresh reader has length \<open>\<Sum>ci\<close> and exactly that many calls of
  \<^verbatim>\<open>next\<close> return a pair before end-of-stream. Two inputs refute it. A shard of two
  physical lines that parse to one row (a quoted field with a line break): the length is
  2, one call returns a pair, and every later call raises \<^verbatim>\<open>IndexError\<close>. A directory
  with one empty shard: the length is 0 and the first call raises \<^verbatim>\<open>IndexError\<close>
  where end-of-stream is due.
\<close>

theorem length_and_drain_counterexample:
  "ShardedCSVDataset_init world_multiline ''d'' False = Inr (reader_two_rows, world_multiline) \<and>
   len_dataset reader_two_rows = 2 \<and>
   fst (pull 3 reader_two_rows world_multiline) = [Inr (''x'', ''y''), Inl IndexError, Inl IndexError] \<and>
   ShardedCSVDataset_init world_empty_shard ''d'' False
     = Inr (fresh_reader ''d'' False [(''d/e'', 0)], world_empty_shard) \<and>
   len_dataset (fresh_reader ''d'' False [(''d/e'', 0)]) = 0 \<and>
   fst (pull 1 (fresh_reader ''d'' False [(''d/e'', 0)]) world_empty_shard) = [Inl IndexError]"
  by (simp add: init_defs reader_defs len_dataset_def eval_nat_numeral)

text \<open>
  C1, amended: for every directory of distinct shard files in which every shard has at
  least one line, parses to as many rows as it has lines, and has at least two fields in
  every row, a freshly constructed reader has length \<open>\<Sum>ci\<close>, the first \<open>\<Sum>ci\<close> calls of
  \<^verbatim>\<open>next\<close> each return a pair and the next call signals end-of-stream, whatever the
  shuffle setting and the random draws.
\<close>

theorem length_and_drain_of_wellformed_shards:
  assumes "dirs w dir = Some names" and "distinct names"
    and "\<forall>n\<in>set names. CHR ''/'' \<notin> set n"
    and "\<forall>n\<in>set names. \<exists>sf. files w (os_path_join dir n) = Some sf \<and> 0 < num_lines sf \<and>
           length (csv_rows sf) = num_lines sf \<and> (\<forall>row\<in>set (csv_rows sf). 2 \<le> length row)"
  shows "\<exists>s0 w0 ps. ShardedCSVDataset_init w dir shuf = Inr (s0, w0) \<and>
     len_dataset s0 = (\<Sum>n\<leftarrow>names. num_lines (the (files w (os_path_join dir n)))) \<and>
     length ps = len_dataset s0 \<and>
     fst (pull (Suc (len_dataset s0)) s0 w0) = map Inr ps @ [Inl StopIteration]"
proof -
  let ?cnt = "\<lambda>f. num_lines (the (files w f))"
  let ?joined = "map (os_path_join dir) names"
  have ex: "\<forall>n\<in>set names. files w (os_path_join dir n) \<noteq> None" using assms(4) by auto
  from init_ok [OF assms(1-3) ex, of shuf] obtain s0 w0 where
    i: "ShardedCSVDataset_init w dir shuf = Inr (s0, w0)" and
    ms: "mset (sharded_files s0) = mset ?joined" and
    fc: "file_counts s0 = map (\<lambda>f. (f, ?cnt f)) (sharded_files s0)" and
    fw: "files w0 = files w"
    by blast
  let ?fs = "sharded_files s0"
  have "distinct ?joined" using assms(2,3) by (rule os_path_join_distinct)
  then have d: "distinct ?fs" using ms by (metis mset_eq_imp_distinct_iff)
  have st: "set ?fs = set ?joined" using ms by (rule mset_eq_setD)
  have len: "len_dataset s0 = sum_list (map ?cnt ?fs)"
    by (simp add: len_dataset_def fc comp_def)
  also have "\<dots> = sum_list (map ?cnt ?joined)" using ms by (rule sum_list_mset_cong)
  finally have l: "len_dataset s0 = (\<Sum>n\<leftarrow>names. ?cnt (os_path_join dir n))"
    by (simp add: comp_def)
  have wf: "\<forall>f\<in>set ?fs. \<exists>sf. files w f = Some sf \<and> length (csv_rows sf) = ?cnt f \<and>
      0 < ?cnt f \<and> (\<forall>row\<in>set (csv_rows sf). 2 \<le> length row) \<and>
      map_of (file_counts s0) f = Some (?cnt f)"
  proof
    fix f assume f: "f \<in> set ?fs"
    then obtain n where "n \<in> set names" "f = os_path_join dir n" using st by auto
    with assms(4) obtain sf where "files w f = Some sf" "0 < num_lines sf"
      "length (csv_rows sf) = num_lines sf" "\<forall>row\<in>set (csv_rows sf). 2 \<le> length row"
      by blast
    moreover have "map_of (file_counts s0) f = Some (?cnt f)"
      using map_of_counts [OF d f] fc by simp
    ultimately show "\<exists>sf. files w f = Some sf \<and> length (csv_rows sf) = ?cnt f \<and>
      0 < ?cnt f \<and> (\<forall>row\<in>set (csv_rows sf). 2 \<le> length row) \<and>
      map_of (file_counts s0) f = Some (?cnt f)" by simp
  qed
  have e: "shard_exhausted s0 = Inr True" "shard_idx s0 + 1 = int 0"
    using init_fields [OF i] by (simp_all add: shard_exhausted_def)
  from drain_from [OF wf fw e] obtain ps s' w' where
    "pull (Suc (sum_list (map ?cnt (drop 0 ?fs)))) s0 w0 = (map Inr ps @ [Inl StopIteration], s', w')"
    "length ps = sum_list (map ?cnt (drop 0 ?fs))"
    by auto
  then have "fst (pull (Suc (len_dataset s0)) s0 w0) = map Inr ps @ [Inl StopIteration]"
    "length ps = len_dataset s0"
    using len by simp_all
  with i l show ?thesis by blast
qed

text \<open>
  C1, witness: the directory with one shard of two well-formed rows.
\<close>

theorem length_and_drain_witness:
  "\<exists>s0 w0 ps. ShardedCSVDataset_init world_two_rows ''d'' False = Inr (s0, w0) \<and>
     len_dataset s0 = 2 \<and> length ps = len_dataset s0 \<and>
     fst (pull (Suc (len_dataset s0)) s0 w0) = map Inr ps @ [Inl StopIteration]"
proof -
  have h1: "dirs world_two_rows ''d'' = Some [''a'']" by (simp add: mk_world_def)
  have h2: "distinct [''a'']" by simp
  have h3: "\<forall>n\<in>set [''a'']. CHR ''/'' \<notin> set n" by simp
  have h4: "\<forall>n\<in>set [''a'']. \<exists>sf. files world_two_rows (os_path_join ''d'' n) = Some sf \<and>
      0 < num_lines sf \<and> length (csv_rows sf) = num_lines sf \<and>
      (\<forall>row\<in>set (csv_rows sf). 2 \<le> length row)"
    by (simp add: mk_world_def os_path_join_def)
  have "(\<Sum>n\<leftarrow>[''a'']. num_lines (the (files world_two_rows (os_path_join ''d'' n)))) = 2"
    by (simp add: mk_world_def os_path_join_def)
  with length_and_drain_of_wellformed_shards [OF h1 h2 h3 h4, of False] show ?thesis by simp
qed

subsection \<open>C2: the pull loop of the batched iterator\<close>

text \<open>
  C2, on the code: a stream of three pairs, an iterator with batch size 2. With the
  global name \<^verbatim>\<open>batch_size\<close> unbound, as in the module, the first call raises
  \<^verbatim>\<open>NameError\<close>. With the global bound to 2, the pull loop takes two pairs into the
  batch and consumes a third one that it drops (row index 3), and the second call finds
  the stream exhausted: one batch instead of two, no short final batch. With the global
  bound to 3 the stream ends inside the loop and \<^verbatim>\<open>StopIteration\<close> leaves the method
  with the pulled pairs lost. With the global bound to 1 the loop pulls for a batch of
  one, whatever the iterator's own batch size (2) is.
\<close>

theorem batch_pull_loop_evaluation:
  "fst (batch_next None iterator_example world_three_rows) = Inl NameError \<and>
   fst (pull_batch (Some 2) reader_three_rows world_three_rows)
     = Inr ([''a1'', ''a2''], [''b1'', ''b2''], 2) \<and>
   curr_idx (fst (snd (pull_batch (Some 2) reader_three_rows world_three_rows))) = 3 \<and>
   fst (pull_batch (Some 2) (fst (snd (pull_batch (Some 2) reader_three_rows world_three_rows)))
          (snd (snd (pull_batch (Some 2) reader_three_rows world_three_rows))))
     = Inl StopIteration \<and>
   fst (pull_batch (Some 3) reader_three_rows world_three_rows) = Inl StopIteration \<and>
   curr_idx (data (fst (snd (batch_next (Some 1) iterator_example world_three_rows)))) = 2"
  by (simp add: batch_defs init_defs reader_defs upt_rec)

subsection \<open>C3: the assembled tensors\<close>

text \<open>
  C3, on the code: for one pulled pair and maximal length 4 the assembly raises
  \<^verbatim>\<open>TypeError\<close> instead of returning two matrices of shape \<open>(1, 4)\<close>, and so does a
  whole call for a batch of two. When no row is assigned (global batch size 0) the
  tensors returned are the one-dimensional \<open>[0, 4]\<close>: the two sizes as data, no pad id;
  and a maximal length of \<open>2^24 + 1\<close> is stored as \<open>2^24\<close>.
\<close>

theorem assemble_evaluation:
  "assemble world_three_rows iterator_example [''ab c''] [''c''] 1 = Inl TypeError \<and>
   fst (batch_next (Some 2) iterator_example world_three_rows) = Inl TypeError \<and>
   fst (batch_next (Some 0) iterator_example world_three_rows) = Inr ([0, 4], [0, 4]) \<and>
   fst (batch_next (Some 0) (iterator_example\<lparr>max_sequence_length := 16777217\<rparr>) world_three_rows)
     = Inr ([0, 16777216], [0, 16777216])"
  by (simp add: batch_defs init_defs reader_defs upt_rec round_half_even_def bit_length.simps)

subsection \<open>C4: tokenization and encoding\<close>

text \<open>
  C4, on the code: the text \<^verbatim>\<open>ab c\<close> is encoded character by character, the blank
  included, as four ids of which three are the unknown id, although the vocabulary has
  ids for both of its whitespace-delimited tokens.
\<close>

theorem encode_text_evaluation:
  "encode_text vocab_example ''ab c'' = [1, 1, 1, 6] \<and>
   word2idx vocab_example ''ab'' = 5 \<and> word2idx vocab_example ''c'' = 6"
  by (simp add: encode_text_def word2idx_def)

subsection \<open>C5: malformed rows\<close>

text \<open>
  C5, as claimed: a shard with a row that does not parse into exactly two fields fails
  to materialize with a condition carrying path and row index. A row of three fields
  does not fail at all: its first two fields are returned as the pair.
\<close>

theorem malformed_row_counterexample:
  "ShardedCSVDataset_init world_long_row ''d'' False = Inr (reader_one_line, world_long_row) \<and>
   fst (dataset_next reader_one_line world_long_row) = Inr (''a'', ''b'')"
  by (simp add: init_defs reader_defs)

text \<open>
  C5, amended: when the reader enters a shard that has a row of fewer than two fields,
  the materialization and with it the call of \<^verbatim>\<open>next\<close> fail with \<^verbatim>\<open>IndexError\<close>
  (which carries neither the path nor the row index); when every row has at least two
  fields, no row is dropped or reordered: the materialized list is the list of the
  rows' first two fields, in file order.
\<close>

theorem short_row_fails_materialization:
  assumes "shard_exhausted s = Inr True"
    and "shard_idx s + 1 = int k" and "k < length (sharded_files s)"
    and "files w (sharded_files s ! k) = Some sf"
  shows "((\<exists>row\<in>set (csv_rows sf). length row < 2) \<longrightarrow>
            materialize (csv_rows sf) = Inl IndexError \<and> fst (dataset_next s w) = Inl IndexError) \<and>
         ((\<forall>row\<in>set (csv_rows sf). 2 \<le> length row) \<longrightarrow>
            materialize (csv_rows sf) = Inr (map (\<lambda>row. (row ! 0, row ! 1)) (csv_rows sf)))"
proof (intro conjI impI)
  assume a: "\<exists>row\<in>set (csv_rows sf). length row < 2"
  then show m: "materialize (csv_rows sf) = Inl IndexError" by (rule materialize_short)
  obtain sc wc where c: "close_curr_file s w = (sc, wc)" by fastforce
  then have sc: "shard_idx sc + 1 = int k" "k < length (sharded_files sc)"
    "files wc (sharded_files sc ! k) = Some sf"
    using assms by (auto simp: close_curr_file_eq)
  from load_next_shard_short [OF sc m] obtain s2 w2 where
    "load_next_shard sc wc = (Inl IndexError, s2, w2)" by (metis fst_conv prod_cases3)
  then show "fst (dataset_next s w) = Inl IndexError"
    using assms(1) c by (simp add: dataset_next_def)
next
  assume "\<forall>row\<in>set (csv_rows sf). 2 \<le> length row"
  then show "materialize (csv_rows sf) = Inr (map (\<lambda>row. (row ! 0, row ! 1)) (csv_rows sf))"
    by (rule materialize_ok)
qed

text \<open>
  C5, witness: a fresh reader over a shard whose only row has one field.
\<close>

theorem short_row_fails_materialization_witness:
  "materialize [[''x'']] = Inl IndexError \<and>
   fst (dataset_next reader_one_line world_short_row) = Inl IndexError"
proof -
  have h1: "shard_exhausted reader_one_line = Inr True"
    by (simp add: shard_exhausted_def fresh_reader_def)
  have h2: "shard_idx reader_one_line + 1 = int 0" by (simp add: fresh_reader_def)
  have h3: "0 < length (sharded_files reader_one_line)" by (simp add: fresh_reader_def)
  have h4: "files world_short_row (sharded_files reader_one_line ! 0) =
      Some \<lparr>num_lines = 1, csv_rows = [[''x'']]\<rparr>"
    by (simp add: fresh_reader_def mk_world_def)
  from short_row_fails_materialization [OF h1 h2 h3 h4] show ?thesis by simp
qed

subsection \<open>C6: construction of the batched iterator\<close>

text \<open>
  C6, as claimed: constructing a batch assembler with an invalid batch size, a
  non-positive maximal sequence length or an empty vocabulary fails at construction.
  The constructor has no check at all: with batch size 0, maximal length \<open>-1\<close> and two
  empty vocabularies it returns an iterator.
\<close>

theorem batch_init_invalid_config_counterexample:
  "ShardedBatchedIterator_init 0 (fresh_reader ''d'' False [])
      \<lparr>token_ids = [], unk_id = 1, pad_id = 0\<rparr> \<lparr>token_ids = [], unk_id = 1, pad_id = 0\<rparr> (- 1)
   = Inr \<lparr>batch_size = 0, data = fresh_reader ''d'' False [],
          en_vocab = \<lparr>token_ids = [], unk_id = 1, pad_id = 0\<rparr>,
          fr_vocab = \<lparr>token_ids = [], unk_id = 1, pad_id = 0\<rparr>,
          max_sequence_length = - 1\<rparr>"
  by (simp add: ShardedBatchedIterator_init_def)

text \<open>
  C6, amended: constructing a batch assembler never fails, whatever the batch size, the
  maximal sequence length and the vocabularies are; the iterator holds exactly the
  values supplied.
\<close>

theorem batch_init_never_fails:
  "ShardedBatchedIterator_init bs d en fr msl =
     Inr \<lparr>batch_size = bs, data = d, en_vocab = en, fr_vocab = fr, max_sequence_length = msl\<rparr>
   \<and> \<not> isl (ShardedBatchedIterator_init bs d en fr msl)"
  by (simp add: ShardedBatchedIterator_init_def)

subsection \<open>C7: reset and re-drain\<close>

text \<open>
  C7: for a reader constructed without shuffling, after any number of calls of
  \<^verbatim>\<open>next\<close> (a full drain in particular), \<^verbatim>\<open>reset\<close> followed by \<open>m\<close> calls yields
  the same results in the same order as the first \<open>m\<close> calls on the fresh reader, for
  every \<open>m\<close>; \<^verbatim>\<open>reset\<close> empties the buffer, sets the row index to 0 and the shard
  index to \<open>-1\<close>, and leaves the line counts and the shard order as they are.
\<close>

theorem reset_replays_drain:
  assumes "ShardedCSVDataset_init w dir False = Inr (s0, w0)"
    and "pull n s0 w0 = (rs, s1, w1)"
  shows "fst (pull m (reset s1) w1) = fst (pull m s0 w0) \<and>
     sharded_files (reset s1) = sharded_files s1 \<and> file_counts (reset s1) = file_counts s1 \<and>
     curr_data (reset s1) = [] \<and> curr_idx (reset s1) = 0 \<and> shard_idx (reset s1) = - 1"
proof -
  have ns: "\<not> shuffle s0" using init_fields [OF assms(1)] by simp
  from pull_frame [OF assms(2)] ns have fr: "sharded_dir s1 = sharded_dir s0" "shuffle s1 = shuffle s0"
    "sharded_files s1 = sharded_files s0" "file_counts s1 = file_counts s0"
    "files w1 = files w0" "rng w1 = rng w0" by simp_all
  have "reset s1 = s0" using reset_of_init [OF assms(1) fr(1-4)] .
  moreover have "fst (pull m s0 w1) = fst (pull m s0 w0)" using pull_world [OF fr(5,6)] by simp
  ultimately show ?thesis using init_fields [OF assms(1)] fr by simp
qed

text \<open>
  C7, witness: a shard of two rows, drained by three calls, reset and drained again.
\<close>

theorem reset_replays_drain_witness:
  "fst (pull 3 (reset (fst (snd (pull 3 reader_two_rows world_two_rows))))
              (snd (snd (pull 3 reader_two_rows world_two_rows))))
     = fst (pull 3 reader_two_rows world_two_rows) \<and>
   fst (pull 3 reader_two_rows world_two_rows)
     = [Inr (''x'', ''y''), Inr (''u'', ''v''), Inl StopIteration]"
proof -
  have i: "ShardedCSVDataset_init world_two_rows ''d'' False = Inr (reader_two_rows, world_two_rows)"
    by (simp add: init_defs)
  obtain rs s1 w1 where p: "pull 3 reader_two_rows world_two_rows = (rs, s1, w1)"
    by (metis prod_cases3)
  have "rs = [Inr (''x'', ''y''), Inr (''u'', ''v''), Inl StopIteration]"
    using p by (auto simp: init_defs reader_defs eval_nat_numeral)
  with reset_replays_drain [OF i p, of 3] p show ?thesis by simp
qed

subsection \<open>C8: open shard files\<close>




subsection \<open>C9: index ranges\<close>

text \<open>
  C9, as claimed: the shard index stays within \<open>[-1, number of shards]\<close>, also after
  end-of-stream has been signalled. With one shard of two rows, the fourth call (the
  second one that signals end-of-stream) leaves the shard index at 2.
\<close>

theorem shard_idx_range_counterexample:
  "ShardedCSVDataset_init world_two_rows ''d'' False = Inr (reader_two_rows, world_two_rows) \<and>
   fst (pull 4 reader_two_rows world_two_rows)
     = [Inr (''x'', ''y''), Inr (''u'', ''v''), Inl StopIteration, Inl StopIteration] \<and>
   shard_idx (fst (snd (pull 4 reader_two_rows world_two_rows))) = 2 \<and>
   length (sharded_files (fst (snd (pull 4 reader_two_rows world_two_rows)))) = 1"
  by (simp add: init_defs reader_defs eval_nat_numeral)

text \<open>
  C9, amended: in every state reached from a freshly constructed reader by calls of
  \<^verbatim>\<open>next\<close> and \<^verbatim>\<open>reset\<close>, the shard index is at least \<open>-1\<close> and the row index lies
  in \<open>[0, number of materialized rows]\<close>; a call made while the shard index is below the
  number of shards leaves it at most the number of shards; a call made when it has
  reached the number of shards signals end-of-stream again and increases it by one.
\<close>

theorem reader_indices_in_range:
  assumes "ShardedCSVDataset_init w dir shuf = Inr (s0, w0)"
    and "run cs s0 w0 = (s, w1)"
    and "dataset_next s w1 = (r, s', w')"
  shows "- 1 \<le> shard_idx s \<and> 0 \<le> curr_idx s \<and> curr_idx s \<le> int (length (curr_data s)) \<and>
     (shard_idx s < int (length (sharded_files s)) \<longrightarrow>
        shard_idx s' \<le> int (length (sharded_files s'))) \<and>
     (int (length (sharded_files s)) \<le> shard_idx s \<longrightarrow>
        r = Inl StopIteration \<and> shard_idx s' = shard_idx s + 1)"
proof -
  have inv: "idx_inv s" using idx_inv_run [OF idx_inv_init [OF assms(1)] assms(2)] .
  have f: "sharded_files s' = sharded_files s" using dataset_next_frame [OF assms(3)] by simp
  from inv shard_idx_step [OF assms(3)] next_after_end [OF assms(3)] f show ?thesis
    by (auto simp: idx_inv_def)
qed

text \<open>
  C9, witness: a shard of two rows, after three calls, and the fourth call.
\<close>

theorem reader_indices_in_range_witness:
  "shard_idx (fst (run [Next, Next, Next] reader_two_rows world_two_rows)) = 1 \<and>
   fst (dataset_next (fst (run [Next, Next, Next] reader_two_rows world_two_rows))
        (snd (run [Next, Next, Next] reader_two_rows world_two_rows))) = Inl StopIteration \<and>
   shard_idx (fst (snd (dataset_next (fst (run [Next, Next, Next] reader_two_rows world_two_rows))
        (snd (run [Next, Next, Next] reader_two_rows world_two_rows))))) = 2"
proof -
  have i: "ShardedCSVDataset_init world_two_rows ''d'' False = Inr (reader_two_rows, world_two_rows)"
    by (simp add: init_defs)
  obtain s w1 where r: "run [Next, Next, Next] reader_two_rows world_two_rows = (s, w1)"
    by fastforce
  obtain r s' w' where n: "dataset_next s w1 = (r, s', w')" by (metis prod_cases3)
  have "shard_idx s = 1" "sharded_files s = [''d/a'']"
    using r by (auto simp: init_defs reader_defs)
  with reader_indices_in_range [OF i r n] r n show ?thesis by simp
qed

subsection \<open>C10: exhaustion is decided by the line count\<close>

text \<open>
  C10, as claimed: for every shard that parses to fewer rows than it has lines, some
  call made while that shard is current indexes the materialized rows out of range
  instead of advancing or signalling end-of-stream. A second shard of two lines whose
  single row has one field refutes it: its materialization fails (line 94), the buffer
  keeps the two rows of the first shard, these are returned again while the second shard
  is current, and the reader then advances and signals end-of-stream.
\<close>

theorem line_count_exhaustion_counterexample:
  "ShardedCSVDataset_init world_stale ''d'' False = Inr (reader_stale, world_stale) \<and>
   materialize [[''z'']] = Inl IndexError \<and>
   fst (pull 6 reader_stale world_stale)
     = [Inr (''x'', ''y''), Inr (''u'', ''v''), Inl IndexError,
        Inr (''x'', ''y''), Inr (''u'', ''v''), Inl StopIteration] \<and>
   shard_idx (fst (snd (pull 3 reader_stale world_stale))) = 1 \<and>
   curr_data (fst (snd (pull 3 reader_stale world_stale))) = [(''x'', ''y''), (''u'', ''v'')] \<and>
   shard_idx (fst (snd (pull 5 reader_stale world_stale))) = 1 \<and>
   shard_idx (fst (snd (pull 6 reader_stale world_stale))) = 2"
  by (simp add: init_defs reader_defs eval_nat_numeral)

text \<open>
  C10, amended: when the reader enters a shard all of whose rows have at least two
  fields (so that it is materialized) and which parses to fewer rows than its line
  count, the calls return the materialized rows one by one (the rows' first two fields,
  in file order without shuffling and in some order with it), the next call raises
  \<^verbatim>\<open>IndexError\<close> on the row list, the shard index stays at that shard, and every
  further call fails in the same way: the reader neither advances nor signals
  end-of-stream.
\<close>

theorem line_count_decides_exhaustion:
  assumes "shard_exhausted s = Inr True"
    and "shard_idx s + 1 = int k" and "k < length (sharded_files s)"
    and "files w (sharded_files s ! k) = Some sf"
    and "\<forall>row\<in>set (csv_rows sf). 2 \<le> length row"
    and "map_of (file_counts s) (sharded_files s ! k) = Some c"
    and "length (csv_rows sf) < c"
  shows "\<exists>ps s' w'.
     pull (Suc (length (csv_rows sf))) s w = (map Inr ps @ [Inl IndexError], s', w') \<and>
     curr_data s' = ps \<and> length ps = length (csv_rows sf) \<and>
     mset ps = mset (map (\<lambda>row. (row ! 0, row ! 1)) (csv_rows sf)) \<and>
     (\<not> shuffle s \<longrightarrow> ps = map (\<lambda>row. (row ! 0, row ! 1)) (csv_rows sf)) \<and>
     shard_idx s' = int k \<and>
     dataset_next s' w' = (Inl IndexError, s', w')"
proof -
  let ?ps = "map (\<lambda>row. (row ! 0, row ! 1)) (csv_rows sf)"
  let ?r = "length (csv_rows sf)"
  have m: "materialize (csv_rows sf) = Inr ?ps" using assms(5) by (rule materialize_ok)
  have "?r \<le> length ?ps" "Suc ?r \<le> c" using assms(7) by simp_all
  from shard_pass [OF assms(1-4) m assms(6) this] obtain D s' w' where
    p: "pull (Suc ?r) s w =
       (map Inr (take ?r D) @ [if ?r < length D then Inr (D ! ?r) else Inl IndexError], s', w')" and
    f: "length D = length ?ps" "curr_data s' = D"
       "curr_idx s' = int (if ?r < length D then Suc ?r else ?r)"
       "curr_file s' \<noteq> None" "curr_file_name s' = Some (sharded_files s ! k)"
       "shard_idx s' = int k" "file_counts s' = file_counts s"
       "mset D = mset ?ps" "\<not> shuffle s \<longrightarrow> D = ?ps"
    by blast
  have len: "length D = ?r" using f(1) by simp
  have i: "curr_idx s' = int ?r" using f(3) len by simp
  have c: "map_of (file_counts s') (sharded_files s ! k) = Some c" using assms(6) f(7) by simp
  have "dataset_next s' w' = (Inl IndexError, s', w')"
    using next_in_shard [OF f(4,5) c i assms(7), of w'] f(2) len by simp
  moreover have "pull (Suc ?r) s w = (map Inr D @ [Inl IndexError], s', w')"
    using p len by simp
  ultimately show ?thesis using len f(2,6,8,9) by blast
qed

text \<open>
  C10, witness: a shard of two physical lines that parse to one row.
\<close>

theorem line_count_decides_exhaustion_witness:
  "\<exists>s' w'. pull 2 reader_two_rows world_multiline
                = (map Inr [(''x'', ''y'')] @ [Inl IndexError], s', w') \<and>
     curr_data s' = [(''x'', ''y'')] \<and> shard_idx s' = 0 \<and>
     dataset_next s' w' = (Inl IndexError, s', w')"
proof -
  have h1: "shard_exhausted reader_two_rows = Inr True"
    by (simp add: shard_exhausted_def fresh_reader_def)
  have h2: "shard_idx reader_two_rows + 1 = int 0" by (simp add: fresh_reader_def)
  have h3: "0 < length (sharded_files reader_two_rows)" by (simp add: fresh_reader_def)
  have h4: "files world_multiline (sharded_files reader_two_rows ! 0) =
      Some \<lparr>num_lines = 2, csv_rows = [[''x'', ''y'']]\<rparr>"
    by (simp add: fresh_reader_def mk_world_def)
  have h5: "\<forall>row\<in>set (csv_rows \<lparr>num_lines = 2, csv_rows = [[''x'', ''y'']]\<rparr>). 2 \<le> length row"
    by simp
  have h6: "map_of (file_counts reader_two_rows) (sharded_files reader_two_rows ! 0) = Some 2"
    by (simp add: fresh_reader_def)
  have h7: "length (csv_rows \<lparr>num_lines = 2, csv_rows = [[''x'', ''y'']]\<rparr>) < 2" by simp
  have h8: "\<not> shuffle reader_two_rows" by (simp add: fresh_reader_def)
  from line_count_decides_exhaustion [OF h1 h2 h3 h4 h5 h6 h7] h8 show ?thesis
    by (auto simp: numeral_2_eq_2 simp del: pull.simps)
qed

end
